theory Spec2Isabelle
  imports Main "HOL-Library.AList"
begin

section \<open>Values of the deploy script\<close>

text \<open>
  The reconciliation engine of \<^verbatim>\<open>src/src/deploy.ts\<close> works on untyped JavaScript
  values: a deploy target is a record of arbitrary key/value fields, the Target Store
  holds such records as they were read from the store file.

  A property key of a JavaScript object is either an array index or another string;
  the index \<open>i\<close> of an array and the key written \<^verbatim>\<open>"i"\<close> on an object are the same
  key. \<open>Idx\<close> carries the array indices, \<open>Name\<close> every other string.

  \<open>Num\<close> carries the finite numbers. \<^verbatim>\<open>NaN\<close>, the one number that is not equal to
  itself, functions, dates and other host objects are outside the model, and so are
  the properties an object inherits from its prototype (\<^verbatim>\<open>length\<close>, \<^verbatim>\<open>toString\<close>):
  \<open>entries\<close> lists the own enumerable properties, which is what \<^verbatim>\<open>for (key in v)\<close>
  visits for the records the engine handles.
\<close>

datatype key = Idx nat | Name string

datatype jsval =
    Undefined
  | Null
  | Bool bool
  | Num int
  | Str string
  | Arr "jsval list"
  | Obj "(key \<times> jsval) list"

text \<open>
  The \<^verbatim>\<open>changed\<close> record that \<^verbatim>\<open>diffObjects\<close> fills in: a key is bound to \<^verbatim>\<open>true\<close>
  or to a nested record of the same kind.
\<close>

datatype changeset = CTrue | CNested "(key \<times> changeset) list"

text \<open>
  \<^verbatim>\<open>isPlainObject\<close> (lines 351-353) is \<^verbatim>\<open>value !== null && typeof value == 'object'\<close>.
  The type of an array is \<^verbatim>\<open>'object'\<close> too, so arrays pass the test.
\<close>

fun isPlainObject :: "jsval \<Rightarrow> bool" where
  "isPlainObject (Arr _) = True"
| "isPlainObject (Obj _) = True"
| "isPlainObject _ = False"

text \<open>\<^verbatim>\<open>Array.isArray\<close>, and the elements of an array.\<close>

fun isArray :: "jsval \<Rightarrow> bool" where
  "isArray (Arr _) = True"
| "isArray _ = False"

fun elems :: "jsval \<Rightarrow> jsval list" where
  "elems (Arr xs) = xs"
| "elems _ = []"

text \<open>
  The own enumerable properties of a value, in enumeration order; \<open>keys\<close> is what
  \<^verbatim>\<open>for (const key in v)\<close> runs through, \<open>get v k\<close> is \<^verbatim>\<open>v[k]\<close> (\<^verbatim>\<open>undefined\<close> for an
  absent key) and \<open>has v k\<close> is \<^verbatim>\<open>k in v\<close>.
\<close>

fun entries :: "jsval \<Rightarrow> (key \<times> jsval) list" where
  "entries (Obj kvs) = kvs"
| "entries (Arr xs) = zip (map Idx [0..<length xs]) xs"
| "entries _ = []"

definition keys :: "jsval \<Rightarrow> key list" where
  "keys v = map fst (entries v)"

definition get :: "jsval \<Rightarrow> key \<Rightarrow> jsval" where
  "get v k = (case map_of (entries v) k of Some x \<Rightarrow> x | None \<Rightarrow> Undefined)"

definition has :: "jsval \<Rightarrow> key \<Rightarrow> bool" where
  "has v k = (k \<in> set (keys v))"

text \<open>
  \<^verbatim>\<open>a !== b\<close>. Two primitive values are strictly equal when they are the same value of
  the same type; an object is never strictly equal to a primitive. Two objects are
  strictly equal when they are the same reference, which a value cannot tell:
  \<^verbatim>\<open>diffObjects\<close> and \<^verbatim>\<open>equalArrays\<close> reach \<^verbatim>\<open>!==\<close> only when at most one side is an
  object, and for two objects (two records built independently) the model answers
  that they differ.
\<close>

definition strict_neq :: "jsval \<Rightarrow> jsval \<Rightarrow> bool" where
  "strict_neq a b = (isPlainObject a \<or> isPlainObject b \<or> a \<noteq> b)"

section \<open>The diff engine\<close>

text \<open>
  \<^verbatim>\<open>diffObjects\<close> (lines 299-327), its inner closure \<^verbatim>\<open>diff\<close> (lines 305-317) and
  \<^verbatim>\<open>equalArrays\<close> (lines 329-349). The closure shares the variables \<^verbatim>\<open>differs\<close> and
  \<^verbatim>\<open>changed\<close> with \<^verbatim>\<open>diffObjects\<close>; here they are the pair that \<open>diff\<close> takes and
  returns. \<^verbatim>\<open>changed[key] = {}\<close> on line 307 binds the key before the nested call
  runs, and the nested call fills that same record in.

  \<^verbatim>\<open>equalArrays\<close> returns from inside its loop at the first pair that differs; the
  loop has no effect, so it is the conjunction over the pairs.
\<close>

function diffObjects :: "jsval \<Rightarrow> jsval \<Rightarrow> (key \<times> changeset) list \<Rightarrow> bool \<times> (key \<times> changeset) list"
  and diff :: "key \<Rightarrow> jsval \<Rightarrow> jsval \<Rightarrow> bool \<times> (key \<times> changeset) list \<Rightarrow> bool \<times> (key \<times> changeset) list"
  and equalArrays :: "jsval list \<Rightarrow> jsval list \<Rightarrow> bool"
where
  "diffObjects oldValues values changed =
     (let s0 = (False, changed);
          s1 = fold (\<lambda>key. diff key (get oldValues key) (get values key)) (keys values) s0;
          s2 = fold (\<lambda>key s. if \<not> has values key
                                then diff key (get oldValues key) (get values key) s else s)
                    (keys oldValues) s1
      in s2)"
| "diff key oldValue value (differs, changed) =
     (if isPlainObject oldValue \<and> isPlainObject value then
        (case diffObjects oldValue value [] of
           (d, sub) \<Rightarrow> (if d then True else differs, AList.update key (CNested sub) changed))
      else if isArray oldValue \<and> isArray value then
        (if \<not> equalArrays (elems oldValue) (elems value)
         then (True, AList.update key CTrue changed) else (differs, changed))
      else if strict_neq oldValue value then (True, AList.update key CTrue changed)
      else (differs, changed))"
| "equalArrays oldValues values =
     (if length oldValues \<noteq> length values then False
      else list_all (\<lambda>(oldValue, value).
             if isPlainObject oldValue \<and> isPlainObject value then
               \<not> fst (diffObjects oldValue value [])
             else if isArray oldValue \<and> isArray value then
               equalArrays (elems oldValue) (elems value)
             else \<not> strict_neq oldValue value)
           (zip oldValues values))"
  by pat_completeness auto
termination
proof (relation "measure (\<lambda>x. case x of
      Inl (old, v, c) \<Rightarrow> 2 * size v + 2
    | Inr (Inl (k, old, v, s)) \<Rightarrow> (if isPlainObject v then 2 * size v + 3 else 1)
    | Inr (Inr (olds, vs)) \<Rightarrow> 2 * size_list size vs + 3)", goal_cases)
  case (2 oldValues vals changed s0 key)
  have sz: "size x < size v" if "(k, x) \<in> set (entries v)" for k x v
  proof (cases v)
    case (Arr xs)
    with that have "x \<in> set xs" by (auto dest: set_zip_rightD)
    then have "size x \<le> size_list size xs" by (simp add: size_list_estimation')
    with Arr show ?thesis by simp
  next
    case (Obj kvs)
    with that have "(k, x) \<in> set kvs" by simp
    then have "size_prod (\<lambda>_. 0) size (k, x) \<le> size_list (size_prod (\<lambda>_. 0) size) kvs"
      by (rule size_list_estimation') simp
    with Obj show ?thesis by simp
  qed (use that in auto)
  from 2 have "map_of (entries vals) key \<noteq> None"
    by (simp add: keys_def map_of_eq_None_iff)
  then obtain x where "map_of (entries vals) key = Some x" by blast
  then have "size (get vals key) < size vals"
    by (auto simp: get_def dest!: map_of_SomeD sz)
  then show ?case by auto
next
  case (3 oldValues vals changed s0 s1 key s)
  then have "get vals key = Undefined"
    by (simp add: has_def get_def keys_def map_of_eq_None_iff [THEN iffD2])
  then show ?case by simp
next
  case (5 key oldValue val differs changed)
  then show ?case by (cases oldValue; cases val) auto
next
  case (6 oldValues vals x oldValue val)
  then have "val \<in> set vals" by (auto dest: set_zip_rightD)
  then have "size val \<le> size_list size vals" by (simp add: size_list_estimation')
  then show ?case by simp
next
  case (7 oldValues vals x oldValue val)
  then have "val \<in> set vals" by (auto dest: set_zip_rightD)
  then have "size val \<le> size_list size vals" by (simp add: size_list_estimation')
  moreover from 7 have "size_list size (elems val) < size val" by (cases val) auto
  ultimately show ?case by simp
qed simp_all

section \<open>Plugins, declarations and the Target Store\<close>

text \<open>
  An error value stands for whatever a rejected promise or a \<^verbatim>\<open>throw\<close> carries.
  \<open>TypeError\<close> is what the JavaScript runtime itself raises (a property read on
  \<^verbatim>\<open>undefined\<close>, \<^verbatim>\<open>Object.defineProperty\<close> on a primitive).
\<close>

datatype error = Error string | TypeError string

text \<open>
  A revert function is a closure handed back by a plugin. The engine only ever calls
  it; \<open>rid\<close> tells the closures apart and \<open>raises\<close> is what the call does: it returns
  (\<open>None\<close>) or throws.
\<close>

datatype revert = RevertFn (rid: nat) (raises: "error option")

text \<open>
  \<^verbatim>\<open>DeployPlugin\<close>, declared in \<^verbatim>\<open>core/deploy\<close>, which is not among the sources: the
  capabilities are taken as they are used in \<^verbatim>\<open>deploy.ts\<close>. \<^verbatim>\<open>pull\<close> and \<^verbatim>\<open>update\<close>
  are optional. An action returns a revert function or nothing, or throws. The
  capabilities are functions of their arguments: what a plugin answers depends on
  nothing else, which is the reading of "no intervening external change" between
  two runs.
\<close>

record DeployPlugin =
  name :: string
  identify :: "jsval \<Rightarrow> error + jsval"
  pull :: "(jsval \<Rightarrow> error + jsval) option"
  spawn :: "jsval \<Rightarrow> error + revert option"
  update :: "(jsval \<Rightarrow> (key \<times> changeset) list \<Rightarrow> error + revert option) option"
  kill :: "jsval \<Rightarrow> error + revert option"

text \<open>
  \<^verbatim>\<open>DeployHookRef\<close>: the hook file (\<^verbatim>\<open>hook.file\<close>) and the plugin loaded for it
  (\<^verbatim>\<open>plugin\<close>), the two fields \<^verbatim>\<open>deploy.ts\<close> reads.
\<close>

record DeployHookRef =
  hook_file :: string
  plugin :: DeployPlugin

text \<open>
  The second argument of \<^verbatim>\<open>addTarget\<close> is a \<^verbatim>\<open>Promisable<DeployTarget>\<close>: the target
  record itself, or a promise that resolves to the record or rejects.
\<close>

datatype declared = Plain jsval | Promised "error + jsval"

text \<open>
  \<^verbatim>\<open>DeployFile\<close>, the data of \<^verbatim>\<open>targets.yaml\<close>: per plugin name, the hook file and the
  targets of the last run, in the order of \<^verbatim>\<open>Object.entries\<close>. The snapshot built
  at the end of a run (lines 227-232) has the same shape and holds what was passed
  to each declaration.
\<close>

type_synonym DeployFile = "(string \<times> string \<times> jsval list) list"

type_synonym snapshot = "(string \<times> string \<times> declared list) list"

text \<open>
  What the run can be seen to do: the actions it asks of the plugins, each with what
  the call returned or threw, the revert functions it calls, its messages, and its
  writes to the files.
\<close>

datatype event =
    Spawn string jsval "error + revert option"
  | Update string jsval "(key \<times> changeset) list" "error + revert option"
  | Kill string jsval "error + revert option"
  | Revert revert
  | WarnNoRollback string string
  | ErrorLogged error
  | InfoThrew string bool
  | InfoNoAction
  | ActionCounts nat nat nat
  | DebugWritten snapshot
  | StoreWritten snapshot
  | Pushed

text \<open>
  The options and the parts of \<^verbatim>\<open>DeployContext\<close> that \<^verbatim>\<open>deploy\<close> reads. The plugin
  loader and \<^verbatim>\<open>toObjectHash\<close> are not among the sources and are parameters:
  \<open>deployPlugins\<close> are the plugins loaded at the first declaration,
  \<open>loadDeployPlugin\<close> loads one from the hook file a store entry names.
  \<open>gitStatus\<close> is the output of \<^verbatim>\<open>git status --porcelain\<close>.
\<close>

record DeployContext =
  dryRun :: bool
  gitStatus :: string
  deployPlugins :: "string \<Rightarrow> DeployPlugin option"
  loadDeployPlugin :: "string \<Rightarrow> error + DeployPlugin"
  toObjectHash :: "jsval \<Rightarrow> string"

text \<open>
  The files of the run: whether \<^verbatim>\<open>deploy.lock\<close> exists, the data of \<^verbatim>\<open>targets.yaml\<close>
  as \<^verbatim>\<open>getData\<close> returns it, what \<^verbatim>\<open>setData\<close> was given (\<open>None\<close> as long as the
  store was not rewritten) and what was written to \<^verbatim>\<open>targets.debug.yaml\<close>.
\<close>

record files =
  lock_exists :: bool
  targets_yaml :: DeployFile
  store_written :: "snapshot option"
  debug_written :: "snapshot option"

text \<open>
  The variables of one call of \<^verbatim>\<open>deploy\<close> (lines 52-96). A saved target is an object
  of the array \<^verbatim>\<open>targetCache[name].targets\<close>; \<^verbatim>\<open>reusedTargets\<close> holds references to
  such objects, which are the pairs of a plugin name and a position in that array.
  \<^verbatim>\<open>savedTargetsByPlugin\<close> holds, per plugin, the saved targets once their \<^verbatim>\<open>_id\<close>
  is defined: each saved target with its identity. Plugins are told apart by name:
  one instance exists per provider name. \<open>log\<close> collects the
  events of the run.
\<close>

record run =
  savedTargetsByPlugin :: "(string \<times> (string \<times> jsval) list) list"
  revertFns :: "revert list"
  activePlugin :: "string option"
  reusedTargets :: "(string \<times> nat) set"
  updatedTargets :: "jsval list"
  addedTargets :: "jsval list"
  targets :: "(DeployHookRef \<times> declared) list"
  targetIndex :: nat
  log :: "event list"

section \<open>Reconciling one target\<close>

text \<open>\<^verbatim>\<open>target = await target\<close> (line 105).\<close>

fun await :: "declared \<Rightarrow> error + jsval" where
  "await (Plain v) = Inr v"
| "await (Promised r) = r"

text \<open>
  \<^verbatim>\<open>if (pulled)\<close> tests truthiness. \<^verbatim>\<open>Object.assign(target, pulled)\<close> writes the own
  enumerable properties of \<^verbatim>\<open>pulled\<close> into the target object itself: a key the target
  has keeps its place and takes the new value, a new key is added at the end. It
  throws on \<^verbatim>\<open>undefined\<close> and \<^verbatim>\<open>null\<close> and leaves any other primitive as it is. A
  target is a record; an array in its place is left as it is by the model.
\<close>

fun truthy :: "jsval \<Rightarrow> bool" where
  "truthy Undefined = False"
| "truthy Null = False"
| "truthy (Bool b) = b"
| "truthy (Num n) = (n \<noteq> 0)"
| "truthy (Str s) = (s \<noteq> [])"
| "truthy _ = True"

fun assign :: "jsval \<Rightarrow> jsval \<Rightarrow> error + jsval" where
  "assign Undefined pulled = Inl (TypeError ''Cannot convert undefined or null to object'')"
| "assign Null pulled = Inl (TypeError ''Cannot convert undefined or null to object'')"
| "assign (Obj kvs) pulled = Inr (Obj (fold (\<lambda>(k, v). AList.update k v) (entries pulled) kvs))"
| "assign target pulled = Inr target"

text \<open>Lines 106-111.\<close>

definition pullTarget :: "DeployPlugin \<Rightarrow> jsval \<Rightarrow> error + jsval" where
  "pullTarget p target =
     (case pull p of
        None \<Rightarrow> Inr target
      | Some f \<Rightarrow>
          (case f target of
             Inl e \<Rightarrow> Inl e
           | Inr pulled \<Rightarrow> if truthy pulled then assign target pulled else Inr target))"

text \<open>
  \<^verbatim>\<open>defineTargetId\<close> (lines 271-278) defines the property \<^verbatim>\<open>_id\<close>, which is not
  enumerable: no loop over the keys of the target sees it and it is not written to
  the store. The model returns the identity instead of storing it in the value.
  \<^verbatim>\<open>Object.defineProperty\<close> throws when the target is not an object. Targets that
  carry a field named \<^verbatim>\<open>_id\<close> of their own are outside the model.
\<close>

definition defineTargetId :: "DeployContext \<Rightarrow> jsval \<Rightarrow> jsval \<Rightarrow> error + string" where
  "defineTargetId ctx target values =
     (if isPlainObject target then Inr (toObjectHash ctx values)
      else Inl (TypeError ''Object.defineProperty called on non-object''))"

text \<open>
  Lines 60-64: every saved target of the plugin is identified. \<^verbatim>\<open>Promise.all\<close>
  rejects with the rejection that comes first; the model takes the first in the
  order of the array.
\<close>

fun identifyAll :: "DeployContext \<Rightarrow> DeployPlugin \<Rightarrow> jsval list \<Rightarrow> error + (string \<times> jsval) list" where
  "identifyAll ctx p [] = Inr []"
| "identifyAll ctx p (savedTarget # rest) =
     (case identify p savedTarget of
        Inl e \<Rightarrow> Inl e
      | Inr values \<Rightarrow>
          (case defineTargetId ctx savedTarget values of
             Inl e \<Rightarrow> Inl e
           | Inr i \<Rightarrow>
               (case identifyAll ctx p rest of
                  Inl e \<Rightarrow> Inl e
                | Inr ids \<Rightarrow> Inr ((i, savedTarget) # ids))))"

text \<open>
  \<^verbatim>\<open>findSavedTarget\<close> (lines 53-68). \<^verbatim>\<open>targetCache[plugin.name].targets\<close> throws when
  the store has no entry for the plugin. The result is the first saved target with
  the identity of the declared one: its position in the array and its value.
\<close>

definition findSavedTarget ::
  "DeployContext \<Rightarrow> DeployFile \<Rightarrow> string \<Rightarrow> DeployPlugin \<Rightarrow> run \<Rightarrow> (error + (nat \<times> jsval) option) \<times> run" where
  "findSavedTarget ctx targetCache target_id p st =
     (case (case map_of (savedTargetsByPlugin st) (name p) of
              Some savedTargets \<Rightarrow> (Inr savedTargets, st)
            | None \<Rightarrow>
                (case map_of targetCache (name p) of
                   None \<Rightarrow>
                     (Inl (TypeError ''Cannot read properties of undefined (reading targets)''), st)
                 | Some (hook, cached) \<Rightarrow>
                     (case identifyAll ctx p cached of
                        Inl e \<Rightarrow> (Inl e, st)
                      | Inr savedTargets \<Rightarrow>
                          (Inr savedTargets,
                           st\<lparr>savedTargetsByPlugin :=
                                 savedTargetsByPlugin st @ [(name p, savedTargets)]\<rparr>)))) of
        (Inl e, st') \<Rightarrow> (Inl e, st')
      | (Inr savedTargets, st') \<Rightarrow>
          (case find (\<lambda>(i, saved_id, savedTarget). saved_id = target_id)
                     (zip [0..<length savedTargets] savedTargets) of
             None \<Rightarrow> (Inr None, st')
           | Some (i, saved_id, savedTarget) \<Rightarrow> (Inr (Some (i, savedTarget)), st')))"

text \<open>
  \<^verbatim>\<open>addRevertFn\<close> (lines 71-85). \<^verbatim>\<open>warnOnce\<close> prints a message once; the warning is
  logged unless the same one is in the log already.
\<close>

definition addRevertFn :: "DeployContext \<Rightarrow> revert option \<Rightarrow> DeployPlugin \<Rightarrow> string \<Rightarrow> run \<Rightarrow> run" where
  "addRevertFn ctx revert p action st =
     (case revert of
        Some r \<Rightarrow> st\<lparr>revertFns := revertFns st @ [r]\<rparr>
      | None \<Rightarrow>
          if \<not> dryRun ctx \<and> WarnNoRollback (name p) action \<notin> set (log st)
          then st\<lparr>log := log st @ [WarnNoRollback (name p) action]\<rparr>
          else st)"

text \<open>
  How a call of \<^verbatim>\<open>addTarget\<close> ends: it runs to its last line (\<open>Advanced\<close>), it
  returns from line 122 because nothing changed (\<open>Unchanged\<close>), or it ends in the
  \<^verbatim>\<open>catch\<close> of line 143 (\<open>Threw\<close>).
\<close>

datatype settled = Advanced | Unchanged | Threw error

text \<open>
  Lines 126-142: the action for a target that is new or has changed. Each call of a
  capability is logged with its result before the result is looked at.
\<close>

definition applyChange ::
  "DeployContext \<Rightarrow> DeployPlugin \<Rightarrow> jsval \<Rightarrow> (jsval \<times> (key \<times> changeset) list) option \<Rightarrow> run \<Rightarrow> settled \<times> run" where
  "applyChange ctx p target saved st =
     (case saved of
        Some (savedTarget, changed) \<Rightarrow>
          (case update p of
             Some upd \<Rightarrow>
               (let st1 = st\<lparr>log := log st @ [Update (name p) target changed (upd target changed)]\<rparr> in
                case upd target changed of
                  Inl e \<Rightarrow> (Threw e, st1)
                | Inr revert \<Rightarrow>
                    (let st2 = addRevertFn ctx revert p ''update'' st1 in
                     (Advanced, st2\<lparr>updatedTargets := updatedTargets st2 @ [target]\<rparr>)))
           | None \<Rightarrow>
               (let st1 = st\<lparr>log := log st @ [Kill (name p) savedTarget (kill p savedTarget)]\<rparr> in
                case kill p savedTarget of
                  Inl e \<Rightarrow> (Threw e, st1)
                | Inr revert \<Rightarrow>
                    (let st2 = addRevertFn ctx revert p ''kill'' st1;
                         st3 = st2\<lparr>log := log st2 @ [Spawn (name p) target (spawn p target)]\<rparr> in
                     case spawn p target of
                       Inl e \<Rightarrow> (Threw e, st3)
                     | Inr revert' \<Rightarrow>
                         (let st4 = addRevertFn ctx revert' p ''spawn'' st3 in
                          (Advanced, st4\<lparr>updatedTargets := updatedTargets st4 @ [target]\<rparr>)))))
      | None \<Rightarrow>
          (let st1 = st\<lparr>log := log st @ [Spawn (name p) target (spawn p target)]\<rparr> in
           case spawn p target of
             Inl e \<Rightarrow> (Threw e, st1)
           | Inr revert \<Rightarrow>
               (let st2 = addRevertFn ctx revert p ''spawn'' st1 in
                (Advanced, st2\<lparr>addedTargets := addedTargets st2 @ [target]\<rparr>))))"

text \<open>
  The \<^verbatim>\<open>try\<close> block of \<^verbatim>\<open>addTarget\<close> (lines 102-145) for the declaration at position
  \<open>pos\<close> of the buffer \<^verbatim>\<open>targets\<close>. When the declared value is the target object
  itself, \<^verbatim>\<open>Object.assign\<close> changes the object the buffer holds; when it is a promise,
  the buffer keeps the promise and the assignment changes the object the promise
  resolved to.
\<close>

definition addTarget ::
  "DeployContext \<Rightarrow> DeployFile \<Rightarrow> nat \<Rightarrow> DeployHookRef \<Rightarrow> declared \<Rightarrow> run \<Rightarrow> settled \<times> run" where
  "addTarget ctx targetCache pos hook target st0 =
     (let p = plugin hook;
          st = st0\<lparr>activePlugin := Some (name p)\<rparr> in
      case await target of
        Inl e \<Rightarrow> (Threw e, st)
      | Inr target1 \<Rightarrow>
      (case pullTarget p target1 of
        Inl e \<Rightarrow> (Threw e, st)
      | Inr target2 \<Rightarrow>
      (let st1 = (case target of
                    Plain _ \<Rightarrow> st\<lparr>targets := (targets st)[pos := (hook, Plain target2)]\<rparr>
                  | Promised _ \<Rightarrow> st) in
       case identify p target2 of
        Inl e \<Rightarrow> (Threw e, st1)
      | Inr values \<Rightarrow>
      (case defineTargetId ctx target2 values of
        Inl e \<Rightarrow> (Threw e, st1)
      | Inr target_id \<Rightarrow>
      (case findSavedTarget ctx targetCache target_id p st1 of
        (Inl e, st2) \<Rightarrow> (Threw e, st2)
      | (Inr None, st2) \<Rightarrow> applyChange ctx p target2 None st2
      | (Inr (Some (i, savedTarget)), st2) \<Rightarrow>
          (let st3 = st2\<lparr>reusedTargets := insert (name p, i) (reusedTargets st2)\<rparr> in
           case diffObjects savedTarget target2 [] of
             (differs, changed) \<Rightarrow>
               if \<not> differs then (Unchanged, st3)
               else applyChange ctx p target2 (Some (savedTarget, changed)) st3))))))"

section \<open>The run\<close>

text \<open>
  The deploy script is evaluated by \<^verbatim>\<open>loadDeployFile\<close>, which is not among the
  sources. What the engine sees of it are its declarations, in order, and two facts
  of timing. \<^verbatim>\<open>deploying\<close> is assigned (line 178) only when the script has finished:
  \<open>script_end\<close> is the number of calls of \<^verbatim>\<open>addTarget\<close> that have ended by then. A
  call that ends in the \<^verbatim>\<open>catch\<close> of line 143 while \<^verbatim>\<open>deploying\<close> is still undefined
  rejects the promise the script got for that declaration; \<open>rethrows\<close> says whether
  the script lets that rejection end it, so that \<^verbatim>\<open>loadDeployFile\<close> throws the error.
\<close>

record script =
  declarations :: "(DeployHookRef \<times> declared) list"
  script_end :: nat
  rethrows :: bool

text \<open>
  Where the \<^verbatim>\<open>try\<close> block of \<^verbatim>\<open>deploy\<close> stands after its first two lines (177-178):
  \<^verbatim>\<open>deploying\<close> was resolved (\<open>Drained\<close>), an error reached the \<^verbatim>\<open>catch\<close> of line 211
  (\<open>Caught\<close>), or \<^verbatim>\<open>deploying\<close> is never settled and the \<^verbatim>\<open>await\<close> of line 178 never
  returns (\<open>Stalled\<close>).
\<close>

datatype drained = Drained | Caught error | Stalled

text \<open>
  The declarations are reconciled one at a time, in the order of the buffer: the
  call for position \<open>targetIndex\<close> is the only one that runs (see the queue below).
  Lines 147-156 move the cursor on only when the call reaches them. The return of
  line 122 and the \<^verbatim>\<open>catch\<close> of line 143 leave the function before: the cursor stays,
  no later declaration is ever started and nothing resolves \<^verbatim>\<open>deploying\<close>. At the
  last declaration \<^verbatim>\<open>deploying?.resolve()\<close> (line 154) does something only if
  \<^verbatim>\<open>deploying\<close> is assigned by then. With no declaration at all nothing ever
  resolves it.
\<close>

fun drain ::
  "DeployContext \<Rightarrow> DeployFile \<Rightarrow> script \<Rightarrow> (DeployHookRef \<times> declared) list \<Rightarrow> run \<Rightarrow> drained \<times> run" where
  "drain ctx targetCache sc [] st = (Stalled, st)"
| "drain ctx targetCache sc ((hook, target) # rest) st =
     (case addTarget ctx targetCache (targetIndex st) hook target st of
        (Advanced, st') \<Rightarrow>
          (let st'' = st'\<lparr>targetIndex := targetIndex st' + 1\<rparr> in
           if rest \<noteq> [] then drain ctx targetCache sc rest st''
           else if script_end sc \<le> targetIndex st' then (Drained, st'')
           else (Stalled, st''))
      | (Unchanged, st') \<Rightarrow> (Stalled, st')
      | (Threw e, st') \<Rightarrow>
          if script_end sc \<le> targetIndex st' \<or> rethrows sc then (Caught e, st')
          else (Stalled, st'))"

text \<open>
  \<^verbatim>\<open>getKillableTargets\<close> (lines 251-269): the saved targets no declaration has
  reused, each with the plugin of its store entry.
\<close>

fun getKillableTargets ::
  "DeployFile \<Rightarrow> (string \<times> nat) set \<Rightarrow> DeployContext \<Rightarrow> error + (DeployPlugin \<times> jsval) list" where
  "getKillableTargets [] reused ctx = Inr []"
| "getKillableTargets ((nm, hook, cached) # rest) reused ctx =
     (case (case deployPlugins ctx nm of
              Some p \<Rightarrow> Inr p
            | None \<Rightarrow> loadDeployPlugin ctx hook) of
        Inl e \<Rightarrow> Inl e
      | Inr p \<Rightarrow>
          (case getKillableTargets rest reused ctx of
             Inl e \<Rightarrow> Inl e
           | Inr killables \<Rightarrow>
               Inr (map (\<lambda>(i, target). (p, target))
                        (filter (\<lambda>(i, target). (nm, i) \<notin> reused)
                                (zip [0..<length cached] cached))
                    @ killables)))"

text \<open>The loop of lines 199-202.\<close>

fun killTargets :: "DeployContext \<Rightarrow> (DeployPlugin \<times> jsval) list \<Rightarrow> run \<Rightarrow> error option \<times> run" where
  "killTargets ctx [] st = (None, st)"
| "killTargets ctx ((p, target) # rest) st =
     (let st1 = st\<lparr>activePlugin := Some (name p), log := log st @ [Kill (name p) target (kill p target)]\<rparr> in
      case kill p target of
        Inl e \<Rightarrow> (Some e, st1)
      | Inr revert \<Rightarrow> killTargets ctx rest (addRevertFn ctx revert p ''kill'' st1))"

text \<open>
  The loop of lines 218-220 over the reversed stack. A revert function that throws
  ends the loop: the \<^verbatim>\<open>await\<close> is not inside a \<^verbatim>\<open>try\<close>.
\<close>

fun revertAll :: "revert list \<Rightarrow> event list \<Rightarrow> error option \<times> event list" where
  "revertAll [] lg = (None, lg)"
| "revertAll (r # rs) lg =
     (case raises r of
        Some e \<Rightarrow> (Some e, lg @ [Revert r])
      | None \<Rightarrow> revertAll rs (lg @ [Revert r]))"

text \<open>
  How the promise that \<^verbatim>\<open>deploy\<close> returns ends: fulfilled, rejected, or never
  settled.
\<close>

datatype outcome = Resolved | Rejected error | Pending

text \<open>
  The \<^verbatim>\<open>catch\<close> block (lines 211-221) followed by the \<^verbatim>\<open>finally\<close> block (lines
  222-225). \<^verbatim>\<open>activePlugin\<close> starts as \<^verbatim>\<open>null\<close>, and reading its name then throws.
\<close>

definition catchBlock :: "DeployContext \<Rightarrow> error \<Rightarrow> run \<Rightarrow> files \<Rightarrow> outcome \<times> files \<times> event list" where
  "catchBlock ctx e st fs =
     (let lg = log st @ [ErrorLogged e];
          fs' = fs\<lparr>lock_exists := False\<rparr> in
      case activePlugin st of
        None \<Rightarrow> (Rejected (TypeError ''Cannot read properties of null (reading name)''), fs', lg)
      | Some nm \<Rightarrow>
          (let lg1 = lg @ [InfoThrew nm (dryRun ctx)] in
           if dryRun ctx then (Rejected e, fs', lg1)
           else
             (case revertAll (rev (revertFns st)) lg1 of
                (Some e', lg2) \<Rightarrow> (Rejected e', fs', lg2)
              | (None, lg2) \<Rightarrow> (Rejected e, fs', lg2))))"

text \<open>
  Lines 227-232: the new store data. Each declaration is filed under the name of its
  plugin; the entry of a name is created at its first declaration.
\<close>

definition addCached :: "DeployHookRef \<times> declared \<Rightarrow> snapshot \<Rightarrow> snapshot" where
  "addCached d newTargetCache =
     (case d of (hook, target) \<Rightarrow>
        (case map_of newTargetCache (name (plugin hook)) of
           None \<Rightarrow> newTargetCache @ [(name (plugin hook), hook_file hook, [target])]
         | Some (f, cached) \<Rightarrow>
             AList.update (name (plugin hook)) (f, cached @ [target]) newTargetCache))"

definition newTargetCache :: "(DeployHookRef \<times> declared) list \<Rightarrow> snapshot" where
  "newTargetCache ts = fold addCached ts []"

text \<open>
  Lines 234-248. The transport of the store (\<^verbatim>\<open>setData\<close>, the commit and the push of
  \<^verbatim>\<open>pushCachedTargets\<close>) is taken to return.
\<close>

definition persist :: "DeployContext \<Rightarrow> run \<Rightarrow> files \<Rightarrow> outcome \<times> files \<times> event list" where
  "persist ctx st fs =
     (let cache = newTargetCache (targets st) in
      if dryRun ctx
      then (Resolved, fs\<lparr>debug_written := Some cache\<rparr>, log st @ [DebugWritten cache])
      else (Resolved, fs\<lparr>store_written := Some cache\<rparr>, log st @ [StoreWritten cache, Pushed]))"

text \<open>The variables of lines 52-96 as \<^verbatim>\<open>deploy\<close> initialises them.\<close>

definition initial :: "script \<Rightarrow> run" where
  "initial sc =
     \<lparr>savedTargetsByPlugin = [], revertFns = [], activePlugin = None, reusedTargets = {},
      updatedTargets = [], addedTargets = [], targets = declarations sc, targetIndex = 0,
      log = []\<rparr>"

text \<open>
  \<^verbatim>\<open>deploy\<close> (lines 27-249): the two checks before the \<^verbatim>\<open>try\<close>, the lock, the
  declarations, the kill phase, and the store. The result is how the returned
  promise ends, the files after the run and the log of the run. A run that never
  settles never reaches its \<^verbatim>\<open>finally\<close> block.
\<close>

definition deploy :: "DeployContext \<Rightarrow> files \<Rightarrow> script \<Rightarrow> outcome \<times> files \<times> event list" where
  "deploy ctx fs sc =
     (if \<not> dryRun ctx \<and> gitStatus ctx \<noteq> []
      then (Rejected (Error ''[saus] Cannot deploy with unstaged changes''), fs, [])
      else if \<not> dryRun ctx \<and> lock_exists fs
      then (Rejected (Error ''[saus] A deployment is already in progress''), fs, [])
      else
        (let fs1 = fs\<lparr>lock_exists := True\<rparr>;
             targetCache = targets_yaml fs in
         case drain ctx targetCache sc (declarations sc) (initial sc) of
           (Stalled, st) \<Rightarrow> (Pending, fs1, log st)
         | (Caught e, st) \<Rightarrow> catchBlock ctx e st fs1
         | (Drained, st) \<Rightarrow>
             (case getKillableTargets targetCache (reusedTargets st) ctx of
                Inl e \<Rightarrow> catchBlock ctx e st fs1
              | Inr killedTargets \<Rightarrow>
                  (let numChanged = length killedTargets + length (updatedTargets st)
                                    + length (addedTargets st) in
                   if numChanged = 0
                   then (Resolved, fs1\<lparr>lock_exists := False\<rparr>, log st @ [InfoNoAction])
                   else
                     (case killTargets ctx killedTargets st of
                        (Some e, st1) \<Rightarrow> catchBlock ctx e st1 fs1
                      | (None, st1) \<Rightarrow>
                          (let st2 = (if \<not> dryRun ctx
                                      then st1\<lparr>log := log st1 @
                                             [ActionCounts (length (addedTargets st1))
                                                (length (updatedTargets st1))
                                                (length killedTargets)]\<rparr>
                                      else st1) in
                           persist ctx st2 (fs1\<lparr>lock_exists := False\<rparr>)))))))"

section \<open>The declaration queue\<close>

text \<open>
  \<^verbatim>\<open>context.addTarget\<close> (lines 160-174) and the end of \<^verbatim>\<open>addTarget\<close> (lines 147-156)
  decide when the call for a declaration starts. The tasks of the run interleave at
  their \<^verbatim>\<open>await\<close>s, in an order the engine does not choose; the queue is therefore a
  transition system, with one rule for each thing that can happen next.

  \<open>targets_q\<close> is \<^verbatim>\<open>targets.length\<close> and \<open>targetIndex_q\<close> is \<^verbatim>\<open>targetIndex\<close>. \<open>loading\<close>
  says that the first declaration is at its \<^verbatim>\<open>await\<close>s (lines 163-168). \<open>calls\<close> are the
  calls of \<^verbatim>\<open>addTarget\<close> in flight, each with the position of its declaration and the
  value it read into its constant \<^verbatim>\<open>index\<close> (line 102). \<open>microtasks\<close> counts the
  callbacks queued on line 149 that have not run. \<open>resolved\<close> holds the positions of
  the declared values that are available: a promise that has resolved, or a plain
  record. \<open>trace\<close> records where each call of \<^verbatim>\<open>addTarget\<close> begins and ends; every
  call of \<^verbatim>\<open>pull\<close>, \<^verbatim>\<open>identify\<close>, \<^verbatim>\<open>diffObjects\<close>, \<^verbatim>\<open>spawn\<close>, \<^verbatim>\<open>update\<close> and \<^verbatim>\<open>kill\<close> for a
  declaration lies between the two.
\<close>

datatype qevent = Begin nat | End nat







section \<open>Reading the log\<close>

text \<open>The results of the actions in a log, in order, and the revert functions called.\<close>

fun action_results :: "event list \<Rightarrow> (error + revert option) list" where
  "action_results [] = []"
| "action_results (Spawn nm t r # lg) = r # action_results lg"
| "action_results (Update nm t c r # lg) = r # action_results lg"
| "action_results (Kill nm t r # lg) = r # action_results lg"
| "action_results (e # lg) = action_results lg"

fun reverted :: "event list \<Rightarrow> revert list" where
  "reverted [] = []"
| "reverted (Revert r # lg) = r # reverted lg"
| "reverted (e # lg) = reverted lg"

fun store_writes :: "event list \<Rightarrow> snapshot list" where
  "store_writes [] = []"
| "store_writes (StoreWritten c # lg) = c # store_writes lg"
| "store_writes (e # lg) = store_writes lg"

text \<open>
  The complete rounds of the positions from \<open>i\<close> up to \<open>c\<close>, and the shapes a queue
  can have: one call in flight, at the cursor; a dispatch queued; idle, with every
  declaration done; the first declaration loading; or stopped behind a call that
  left early.
\<close>

definition rounds :: "nat \<Rightarrow> nat \<Rightarrow> qevent list" where
  "rounds i c = concat (map (\<lambda>j. [Begin j, End j]) [i..<c])"



section \<open>Notions for the statements\<close>

text \<open>
  The revert functions that a list of action results has handed back, in order;
  whether every action of the list returned; whether the list ends with an action
  that threw \<open>e\<close> after actions that all returned.
\<close>

fun returned :: "(error + revert option) list \<Rightarrow> revert list" where
  "returned [] = []"
| "returned (Inr (Some r) # xs) = r # returned xs"
| "returned (x # xs) = returned xs"

definition all_ok :: "(error + revert option) list \<Rightarrow> bool" where
  "all_ok rs = (\<forall>r \<in> set rs. \<not> isl r)"

definition failed_with :: "error \<Rightarrow> (error + revert option) list \<Rightarrow> bool" where
  "failed_with e rs = (\<exists>oks. rs = oks @ [Inl e] \<and> all_ok oks)"

text \<open>
  What a sweep over a list of revert functions calls, and the error it ends with, if
  any: the sweep goes on until a call throws.
\<close>

fun attempted :: "revert list \<Rightarrow> revert list" where
  "attempted [] = []"
| "attempted (r # rs) = (case raises r of Some e \<Rightarrow> [r] | None \<Rightarrow> r # attempted rs)"

fun sweep_error :: "revert list \<Rightarrow> error option" where
  "sweep_error [] = None"
| "sweep_error (r # rs) = (case raises r of Some e \<Rightarrow> Some e | None \<Rightarrow> sweep_error rs)"

text \<open>A run passes the two checks of lines 35-42.\<close>

definition passes :: "DeployContext \<Rightarrow> files \<Rightarrow> bool" where
  "passes ctx fs = (dryRun ctx \<or> (gitStatus ctx = [] \<and> \<not> lock_exists fs))"

text \<open>
  The events a run state has gained over an earlier one. The later state extends
  the earlier one when its log only grew, its stack of revert functions grew by what
  the new actions handed back, and the new events are neither calls of a revert
  function nor writes of the store nor the message that no action was required.
\<close>

definition news :: "run \<Rightarrow> run \<Rightarrow> event list" where
  "news st st' = drop (length (log st)) (log st')"

definition extends :: "run \<Rightarrow> run \<Rightarrow> bool" where
  "extends st st' =
     (log st' = log st @ news st st'
      \<and> revertFns st' = revertFns st @ returned (action_results (news st st'))
      \<and> reverted (news st st') = [] \<and> store_writes (news st st') = []
      \<and> InfoNoAction \<notin> set (news st st'))"

text \<open>
  How the results of the new actions fit the way a call of \<^verbatim>\<open>addTarget\<close> ended, and
  the way the declarations were drained.
\<close>

fun fits :: "settled \<Rightarrow> (error + revert option) list \<Rightarrow> bool" where
  "fits Advanced rs = (all_ok rs \<and> rs \<noteq> [])"
| "fits Unchanged rs = (rs = [])"
| "fits (Threw e) rs = (rs = [] \<or> failed_with e rs)"

definition summary :: "run \<Rightarrow> run \<Rightarrow> settled \<Rightarrow> bool" where
  "summary st st' res =
     (extends st st' \<and> fits res (action_results (news st st'))
      \<and> targetIndex st' = targetIndex st
      \<and> length (updatedTargets st') + length (addedTargets st') =
        length (updatedTargets st) + length (addedTargets st) + (if res = Advanced then 1 else 0)
      \<and> (res = Unchanged \<longrightarrow> log st' = log st)
      \<and> (res \<noteq> Advanced \<longrightarrow>
           updatedTargets st' = updatedTargets st \<and> addedTargets st' = addedTargets st))"

fun fits_drained :: "drained \<Rightarrow> (error + revert option) list \<Rightarrow> bool" where
  "fits_drained Drained rs = all_ok rs"
| "fits_drained (Caught e) rs = (all_ok rs \<or> failed_with e rs)"
| "fits_drained Stalled rs = True"

text \<open>
  What the snapshot loop of lines 227-232 finds in \<open>targets\<close> for one declaration once
  \<open>addTarget\<close> has run on it. A record is the very object that \<open>Object.assign\<close> of
  line 105 has extended with the pulled fields; a promise was awaited into the local variable
  \<open>target\<close> only, so the entry of \<open>targets\<close> still is the promise.
\<close>

definition persisted :: "DeployHookRef \<times> declared \<Rightarrow> DeployHookRef \<times> declared" where
  "persisted d =
     (case d of
        (hook, Plain v) \<Rightarrow>
          (hook, Plain (case pullTarget (plugin hook) v of Inr v' \<Rightarrow> v' | Inl e \<Rightarrow> v))
      | (hook, Promised r) \<Rightarrow> (hook, Promised r))"

text \<open>The declarations made through hooks of the plugin with the given name, in declaration order.\<close>

definition declared_under :: "string \<Rightarrow> (DeployHookRef \<times> declared) list \<Rightarrow> (DeployHookRef \<times> declared) list" where
  "declared_under nm ds = filter (\<lambda>(hook, target). name (plugin hook) = nm) ds"

text \<open>
  The store between two runs. The snapshot is written with \<^verbatim>\<open>setData\<close> of the file
  \<^verbatim>\<open>targets.yaml\<close> (line 243) and read by the next run with \<^verbatim>\<open>getData\<close> (line 50);
  the serialisation behind them is not among the sources. A record that was persisted is
  taken to be read back as it was. What is read back for a persisted promise is left open.
\<close>

fun reads_back :: "declared \<Rightarrow> jsval \<Rightarrow> bool" where
  "reads_back (Plain v) v' = (v' = v)"
| "reads_back (Promised r) v' = True"

definition stored_as :: "snapshot \<Rightarrow> DeployFile \<Rightarrow> bool" where
  "stored_as snap store =
     list_all2 (\<lambda>(nm, f, ds) (nm', f', vs). nm' = nm \<and> f' = f \<and> list_all2 reads_back ds vs)
       snap store"

section \<open>Notions for the diff engine\<close>

text \<open>
  What \<^verbatim>\<open>diff\<close> finds for one key: whether the two values of the key differ, and the
  entry the key gets in \<^verbatim>\<open>changed\<close>, if any.
\<close>

definition field_differs :: "jsval \<Rightarrow> jsval \<Rightarrow> bool" where
  "field_differs oldValue value =
     (if isPlainObject oldValue \<and> isPlainObject value then fst (diffObjects oldValue value [])
      else strict_neq oldValue value)"

definition field_entry :: "jsval \<Rightarrow> jsval \<Rightarrow> changeset option" where
  "field_entry oldValue value =
     (if isPlainObject oldValue \<and> isPlainObject value
      then Some (CNested (snd (diffObjects oldValue value [])))
      else if strict_neq oldValue value then Some CTrue else None)"


text \<open>
  The records built from objects and defined scalars only: no \<^verbatim>\<open>undefined\<close> and no
  array inside.
\<close>

fun plain_data :: "jsval \<Rightarrow> bool" where
  "plain_data Undefined = False"
| "plain_data (Arr xs) = False"
| "plain_data (Obj kvs) = list_all (\<lambda>(k, v). plain_data v) kvs"
| "plain_data v = True"









section \<open>An example provider\<close>

text \<open>
  A plugin without \<^verbatim>\<open>pull\<close> and \<^verbatim>\<open>update\<close> whose targets are identified by their name.
  It spawns the targets named a, b and c and fails to spawn any other; the revert
  function it hands back for b does what \<open>undo\<close> says. The hash of an identity is
  the name it holds.
\<close>

definition shop :: "error option \<Rightarrow> DeployPlugin" where
  "shop undo =
     \<lparr>name = ''shop'',
      identify = (\<lambda>t. Inr (Obj [(Name ''name'', get t (Name ''name''))])),
      pull = None,
      spawn = (\<lambda>t. if get t (Name ''name'') = Str ''a'' then Inr (Some (RevertFn 1 None))
                     else if get t (Name ''name'') = Str ''b'' then Inr (Some (RevertFn 2 undo))
                     else if get t (Name ''name'') = Str ''c'' then Inr (Some (RevertFn 3 None))
                     else Inl (Error ''spawn failed'')),
      update = None,
      kill = (\<lambda>t. Inr (Some (RevertFn 4 None)))\<rparr>"

definition named :: "string \<Rightarrow> jsval" where
  "named s = Obj [(Name ''name'', Str s)]"

definition hash_name :: "jsval \<Rightarrow> string" where
  "hash_name v = (case get v (Name ''name'') of Str s \<Rightarrow> s | _ \<Rightarrow> [])"

definition shop_context :: "bool \<Rightarrow> string \<Rightarrow> error option \<Rightarrow> DeployContext" where
  "shop_context dry status undo =
     \<lparr>dryRun = dry, gitStatus = status,
      deployPlugins = (\<lambda>n. if n = ''shop'' then Some (shop undo) else None),
      loadDeployPlugin = (\<lambda>h. Inl (Error ''no such hook'')),
      toObjectHash = hash_name\<rparr>"

definition shop_files :: "bool \<Rightarrow> jsval list \<Rightarrow> files" where
  "shop_files locked saved =
     \<lparr>lock_exists = locked, targets_yaml = [(''shop'', ''shop.ts'', saved)],
      store_written = None, debug_written = None\<rparr>"

definition shop_script :: "error option \<Rightarrow> string list \<Rightarrow> script" where
  "shop_script undo names =
     \<lparr>declarations = map (\<lambda>s. (\<lparr>hook_file = ''shop.ts'', plugin = shop undo\<rparr>, Plain (named s))) names,
      script_end = 0, rethrows = False\<rparr>"

definition shop_hook :: DeployHookRef where
  "shop_hook = \<lparr>hook_file = ''shop.ts'', plugin = shop None\<rparr>"

text \<open>
  The log of the run that declares a, b, c and d against an empty store entry:
  three spawns, the failure of the fourth, and the sweep.
\<close>

definition abcd_log :: "error option \<Rightarrow> event list" where
  "abcd_log undo =
     [Spawn ''shop'' (named ''a'') (Inr (Some (RevertFn 1 None))),
      Spawn ''shop'' (named ''b'') (Inr (Some (RevertFn 2 undo))),
      Spawn ''shop'' (named ''c'') (Inr (Some (RevertFn 3 None))),
      Spawn ''shop'' (named ''d'') (Inl (Error ''spawn failed'')),
      ErrorLogged (Error ''spawn failed''), InfoThrew ''shop'' False,
      Revert (RevertFn 3 None), Revert (RevertFn 2 undo)]
     @ (case undo of None \<Rightarrow> [Revert (RevertFn 1 None)] | Some e \<Rightarrow> [])"

text \<open>
  A second provider, which has a \<open>pull\<close> method and returns no rollback function, and a
  script that declares targets of both providers, one of them as a promise.
\<close>

definition depot :: DeployPlugin where
  "depot =
     \<lparr>name = ''depot'',
      identify = (\<lambda>t. Inr (Obj [(Name ''name'', get t (Name ''name''))])),
      pull = Some (\<lambda>t. Inr (Obj [(Name ''id'', Str ''i-1'')])),
      spawn = (\<lambda>t. Inr None),
      update = None,
      kill = (\<lambda>t. Inr None)\<rparr>"

definition depot_hook :: DeployHookRef where
  "depot_hook = \<lparr>hook_file = ''depot.ts'', plugin = depot\<rparr>"

definition both_context :: DeployContext where
  "both_context =
     \<lparr>dryRun = False, gitStatus = [],
      deployPlugins = (\<lambda>n. if n = ''shop'' then Some (shop None)
                            else if n = ''depot'' then Some depot else None),
      loadDeployPlugin = (\<lambda>h. Inl (Error ''no such hook'')),
      toObjectHash = hash_name\<rparr>"

definition both_files :: files where
  "both_files =
     \<lparr>lock_exists = False,
      targets_yaml = [(''shop'', ''shop.ts'', []), (''depot'', ''depot.ts'', [])],
      store_written = None, debug_written = None\<rparr>"

definition both_script :: script where
  "both_script =
     \<lparr>declarations =
        [(shop_hook, Plain (named ''a'')),
         (depot_hook, Promised (Inr (named ''x''))),
         (depot_hook, Plain (named ''y'')),
         (shop_hook, Plain (named ''b''))],
      script_end = 0, rethrows = False\<rparr>"

definition both_snapshot :: snapshot where
  "both_snapshot =
     [(''shop'', ''shop.ts'', [Plain (named ''a''), Plain (named ''b'')]),
      (''depot'', ''depot.ts'',
       [Promised (Inr (named ''x'')),
        Plain (Obj [(Name ''name'', Str ''y''), (Name ''id'', Str ''i-1'')])])]"

text \<open>A script that declares the target a as a promise, as \<^verbatim>\<open>useCloudFormation\<close> does.\<close>

definition promise_script :: script where
  "promise_script =
     \<lparr>declarations = [(shop_hook, Promised (Inr (named ''a'')))],
      script_end = 0, rethrows = False\<rparr>"

section \<open>The queue keeps declaration order\<close>


lemma rounds_same [simp]: "rounds i i = []"
  by (simp add: rounds_def)










section \<open>What a run adds to its log\<close>

lemma action_results_append [simp]: "action_results (a @ b) = action_results a @ action_results b"
  by (induction a rule: action_results.induct) auto

lemma reverted_append [simp]: "reverted (a @ b) = reverted a @ reverted b"
  by (induction a rule: reverted.induct) auto

lemma store_writes_append [simp]: "store_writes (a @ b) = store_writes a @ store_writes b"
  by (induction a rule: store_writes.induct) auto

lemma returned_append [simp]: "returned (a @ b) = returned a @ returned b"
  by (induction a rule: returned.induct) auto

lemma all_ok_simps [simp]:
  "all_ok []" "all_ok (a @ b) = (all_ok a \<and> all_ok b)" "all_ok (r # rs) = (\<not> isl r \<and> all_ok rs)"
  by (auto simp: all_ok_def)

lemma failed_with_single [simp]: "failed_with e [Inl e]"
  by (simp add: failed_with_def)

lemma failed_with_append: "all_ok a \<Longrightarrow> failed_with e b \<Longrightarrow> failed_with e (a @ b)"
  by (auto simp: failed_with_def intro: exI [of _ "a @ oks" for oks])

lemma failed_with_Cons: "\<not> isl r \<Longrightarrow> failed_with e b \<Longrightarrow> failed_with e (r # b)"
  using failed_with_append [of "[r]" e b] by simp

lemma failed_with_not_ok: "failed_with e rs \<Longrightarrow> \<not> all_ok rs"
  by (auto simp: failed_with_def)

lemma failed_with_unique: "failed_with e (oks @ [Inl e']) \<Longrightarrow> e = e'"
  by (auto simp: failed_with_def)

lemma failed_with_two [simp]: "failed_with e [Inr r, Inl e]"
  using failed_with_Cons [of "Inr r" e "[Inl e]"] by simp

lemma news_same [simp]: "news st st = []"
  by (simp add: news_def)

lemma extends_refl [simp]: "extends st st"
  by (simp add: extends_def)

lemma news_trans: "extends a b \<Longrightarrow> extends b c \<Longrightarrow> news a c = news a b @ news b c"
  by (metis append.assoc append_eq_conv_conj extends_def news_def)

lemma extends_trans: "extends a b \<Longrightarrow> extends b c \<Longrightarrow> extends a c"
  using news_trans [of a b c] by (auto simp: extends_def)

lemma addRevertFn_fields [simp]:
  "revertFns (addRevertFn ctx r p a st) = revertFns st @ (case r of None \<Rightarrow> [] | Some x \<Rightarrow> [x])"
  "targets (addRevertFn ctx r p a st) = targets st"
  "updatedTargets (addRevertFn ctx r p a st) = updatedTargets st"
  "addedTargets (addRevertFn ctx r p a st) = addedTargets st"
  "reusedTargets (addRevertFn ctx r p a st) = reusedTargets st"
  "activePlugin (addRevertFn ctx r p a st) = activePlugin st"
  "targetIndex (addRevertFn ctx r p a st) = targetIndex st"
  "savedTargetsByPlugin (addRevertFn ctx r p a st) = savedTargetsByPlugin st"
  by (simp_all add: addRevertFn_def split: option.splits)

lemma applyChange_extends:
  assumes "applyChange ctx p target saved st = (res, st')"
  shows "extends st st' \<and> fits res (action_results (news st st')) \<and> res \<noteq> Unchanged
         \<and> (\<forall>e. res = Threw e \<longrightarrow> failed_with e (action_results (news st st')))"
  using assms
  by (auto simp: applyChange_def addRevertFn_def Let_def extends_def news_def
           split: option.splits sum.splits if_splits prod.splits)

lemma applyChange_frame:
  assumes "applyChange ctx p target saved st = (res, st')"
  shows "targets st' = targets st \<and> reusedTargets st' = reusedTargets st
         \<and> activePlugin st' = activePlugin st \<and> targetIndex st' = targetIndex st
         \<and> savedTargetsByPlugin st' = savedTargetsByPlugin st"
  using assms
  by (auto simp: applyChange_def addRevertFn_def Let_def
           split: option.splits sum.splits if_splits prod.splits)

lemma applyChange_counts:
  assumes "applyChange ctx p target saved st = (res, st')"
  shows "length (updatedTargets st') + length (addedTargets st') =
         length (updatedTargets st) + length (addedTargets st) + (if res = Advanced then 1 else 0)"
  using assms
  by (auto simp: applyChange_def addRevertFn_def Let_def
           split: option.splits sum.splits if_splits prod.splits)

lemma applyChange_not_advanced:
  assumes "applyChange ctx p target saved st = (res, st')" and "res \<noteq> Advanced"
  shows "updatedTargets st' = updatedTargets st \<and> addedTargets st' = addedTargets st"
  using assms
  by (auto simp: applyChange_def addRevertFn_def Let_def
           split: option.splits sum.splits if_splits prod.splits)

lemma findSavedTarget_frame:
  assumes "findSavedTarget ctx tc tid p st = (r, st')"
  shows "log st' = log st \<and> revertFns st' = revertFns st \<and> updatedTargets st' = updatedTargets st
         \<and> addedTargets st' = addedTargets st \<and> targets st' = targets st
         \<and> reusedTargets st' = reusedTargets st \<and> activePlugin st' = activePlugin st
         \<and> targetIndex st' = targetIndex st"
  using assms
  by (auto simp: findSavedTarget_def split: option.splits sum.splits prod.splits)

lemma extends_cong:
  "log a = log b \<Longrightarrow> revertFns a = revertFns b \<Longrightarrow> extends a c = extends b c"
  "log a = log b \<Longrightarrow> news a c = news b c"
  by (simp_all add: extends_def news_def)

lemma extends_same_log:
  "log a = log b \<Longrightarrow> revertFns a = revertFns b \<Longrightarrow> extends b a \<and> news b a = []"
  by (simp add: extends_def news_def)

lemma summary_quiet:
  "log a = log b \<Longrightarrow> revertFns a = revertFns b \<Longrightarrow> targetIndex a = targetIndex b
   \<Longrightarrow> updatedTargets a = updatedTargets b \<Longrightarrow> addedTargets a = addedTargets b
   \<Longrightarrow> res \<noteq> Advanced \<Longrightarrow> fits res [] \<Longrightarrow> summary b a res"
  by (simp add: summary_def extends_same_log)

lemma summary_applyChange:
  assumes "applyChange ctx p target saved stm = (res, st')"
    and "log stm = log st" "revertFns stm = revertFns st" "targetIndex stm = targetIndex st"
    and "updatedTargets stm = updatedTargets st" "addedTargets stm = addedTargets st"
  shows "summary st st' res"
  using applyChange_extends [OF assms(1)] applyChange_frame [OF assms(1)]
    applyChange_counts [OF assms(1)] applyChange_not_advanced [OF assms(1)] assms(2-)
  by (simp add: summary_def extends_cong [of stm st])

lemma addTarget_summary:
  assumes "addTarget ctx tc pos hook t st = (res, st')"
  shows "summary st st' res"
proof -
  let ?p = "plugin hook"
  let ?st = "st\<lparr>activePlugin := Some (name ?p)\<rparr>"
  show ?thesis
  proof (cases "await t")
    case (Inl e)
    with assms show ?thesis by (auto simp: addTarget_def Let_def intro!: summary_quiet)
  next
    case t1: (Inr target1)
    show ?thesis
    proof (cases "pullTarget ?p target1")
      case (Inl e)
      with assms t1 show ?thesis by (auto simp: addTarget_def Let_def intro!: summary_quiet)
    next
      case t2: (Inr target2)
      define st1 where "st1 = (case t of
                    Plain _ \<Rightarrow> ?st\<lparr>targets := (targets ?st)[pos := (hook, Plain target2)]\<rparr>
                  | Promised _ \<Rightarrow> ?st)"
      have f1: "log st1 = log st" "revertFns st1 = revertFns st" "targetIndex st1 = targetIndex st"
        "updatedTargets st1 = updatedTargets st" "addedTargets st1 = addedTargets st"
        by (simp_all add: st1_def split: declared.splits)
      show ?thesis
      proof (cases "identify ?p target2")
        case (Inl e)
        with assms t1 t2 f1 show ?thesis
          by (auto simp: addTarget_def Let_def st1_def [symmetric] intro!: summary_quiet)
      next
        case vs: (Inr vals)
        show ?thesis
        proof (cases "defineTargetId ctx target2 vals")
          case (Inl e)
          with assms t1 t2 vs f1 show ?thesis
            by (auto simp: addTarget_def Let_def st1_def [symmetric] intro!: summary_quiet)
        next
          case tid: (Inr target_id)
          obtain r st2 where fs: "findSavedTarget ctx tc target_id ?p st1 = (r, st2)"
            by (cases "findSavedTarget ctx tc target_id ?p st1")
          note f2 = findSavedTarget_frame [OF fs]
          show ?thesis
          proof (cases r)
            case (Inl e)
            with assms t1 t2 vs tid fs f1 f2 show ?thesis
              by (auto simp: addTarget_def Let_def st1_def [symmetric] intro!: summary_quiet)
          next
            case (Inr found)
            show ?thesis
            proof (cases found)
              case None
              with assms t1 t2 vs tid fs Inr
              have "applyChange ctx ?p target2 None st2 = (res, st')"
                by (simp add: addTarget_def Let_def st1_def [symmetric])
              then show ?thesis by (rule summary_applyChange) (use f1 f2 in simp_all)
            next
              case (Some found1)
              obtain i savedTarget where found1: "found1 = (i, savedTarget)" by (cases found1)
              define st3 where "st3 = st2\<lparr>reusedTargets := insert (name ?p, i) (reusedTargets st2)\<rparr>"
              obtain differs changed where d: "diffObjects savedTarget target2 [] = (differs, changed)"
                by (cases "diffObjects savedTarget target2 []")
              show ?thesis
              proof (cases differs)
                case False
                with assms t1 t2 vs tid fs Inr Some found1 d have "res = Unchanged" "st' = st3"
                  by (simp_all add: addTarget_def Let_def st1_def [symmetric] st3_def)
                with f1 f2 show ?thesis by (auto simp: st3_def intro!: summary_quiet)
              next
                case True
                with assms t1 t2 vs tid fs Inr Some found1 d
                have "applyChange ctx ?p target2 (Some (savedTarget, changed)) st3 = (res, st')"
                  by (simp add: addTarget_def Let_def st1_def [symmetric] st3_def)
                then show ?thesis by (rule summary_applyChange) (use f1 f2 in \<open>simp_all add: st3_def\<close>)
              qed
            qed
          qed
        qed
      qed
    qed
  qed
qed

lemma addTarget_active:
  assumes "addTarget ctx tc pos hook t st = (res, st')"
  shows "activePlugin st' = Some (name (plugin hook))"
  using assms
  by (auto simp: addTarget_def Let_def
           split: sum.splits option.splits prod.splits if_splits declared.splits
           dest!: findSavedTarget_frame applyChange_frame)

lemma fits_all_ok: "fits res rs \<Longrightarrow> res \<noteq> Threw e \<Longrightarrow> (\<And>e. res \<noteq> Threw e) \<Longrightarrow> all_ok rs"
  by (cases res) auto

lemma drain_summary:
  assumes "drain ctx tc sc ds st = (res, st')"
  shows "extends st st' \<and> fits_drained res (action_results (news st st'))
         \<and> (res \<noteq> Stalled \<longrightarrow> activePlugin st' \<noteq> None)
         \<and> (res = Drained \<longrightarrow> 0 < length (updatedTargets st') + length (addedTargets st'))"
  using assms
proof (induction ds arbitrary: st res st')
  case Nil
  then show ?case by auto
next
  case (Cons d ds)
  obtain hook target where d: "d = (hook, target)" by (cases d)
  obtain r1 st1 where a: "addTarget ctx tc (targetIndex st) hook target st = (r1, st1)"
    by (cases "addTarget ctx tc (targetIndex st) hook target st")
  note s1 = addTarget_summary [OF a, unfolded summary_def] and act = addTarget_active [OF a]
  show ?case
  proof (cases r1)
    case Unchanged
    with Cons.prems d a s1 show ?thesis by auto
  next
    case (Threw e)
    with Cons.prems d a s1 act show ?thesis by (auto split: if_splits)
  next
    case Advanced
    let ?st2 = "st1\<lparr>targetIndex := targetIndex st1 + 1\<rparr>"
    have e12: "extends st ?st2" "news st ?st2 = news st st1"
      using s1 by (simp_all add: extends_def news_def)
    have ok1: "all_ok (action_results (news st st1))" using s1 Advanced by simp
    show ?thesis
    proof (cases "ds = []")
      case True
      with Cons.prems d a Advanced e12 ok1 act s1 show ?thesis
        by (auto simp: Let_def split: if_splits)
    next
      case False
      with Cons.prems d a Advanced have dr: "drain ctx tc sc ds ?st2 = (res, st')"
        by (simp add: Let_def)
      note ih = Cons.IH [OF dr]
      have e: "extends st st'" using e12(1) ih by (blast intro: extends_trans)
      have n: "news st st' = news st st1 @ news ?st2 st'"
        using news_trans [OF e12(1), of st'] ih e12(2) by simp
      have "fits_drained res (action_results (news st st'))"
        using ih ok1 unfolding n by (cases res) (auto intro: failed_with_append)
      with e ih show ?thesis by simp
    qed
  qed
qed

lemma killTargets_summary:
  assumes "killTargets ctx ks st = (r, st')"
  shows "extends st st'
         \<and> (case r of None \<Rightarrow> all_ok (action_results (news st st'))
                     | Some e \<Rightarrow> failed_with e (action_results (news st st')))
         \<and> updatedTargets st' = updatedTargets st \<and> addedTargets st' = addedTargets st
         \<and> targets st' = targets st
         \<and> (activePlugin st \<noteq> None \<longrightarrow> activePlugin st' \<noteq> None)"
  using assms
proof (induction ks arbitrary: st r st')
  case Nil
  then show ?case by auto
next
  case (Cons k ks)
  obtain p target where k: "k = (p, target)" by (cases k)
  let ?st1 = "st\<lparr>activePlugin := Some (name p), log := log st @ [Kill (name p) target (kill p target)]\<rparr>"
  show ?case
  proof (cases "kill p target")
    case (Inl e)
    with Cons.prems k show ?thesis
      by (auto simp: Let_def extends_def news_def)
  next
    case (Inr revert)
    let ?st2 = "addRevertFn ctx revert p ''kill'' ?st1"
    from Cons.prems k Inr have kt: "killTargets ctx ks ?st2 = (r, st')" by (simp add: Let_def)
    note ih = Cons.IH [OF kt]
    have e1: "extends st ?st2" "action_results (news st ?st2) = [Inr revert]"
      using Inr by (auto simp: addRevertFn_def extends_def news_def split: option.splits)
    have e: "extends st st'" using e1(1) ih by (blast intro: extends_trans)
    have n: "news st st' = news st ?st2 @ news ?st2 st'"
      using news_trans [OF e1(1), of st'] ih by simp
    have "case r of None \<Rightarrow> all_ok (action_results (news st st'))
                  | Some e \<Rightarrow> failed_with e (action_results (news st st'))"
      using ih e1(2) unfolding n by (cases r) (auto intro: failed_with_Cons)
    with e ih show ?thesis by simp
  qed
qed

lemma revertAll_eq: "revertAll rs lg = (sweep_error rs, lg @ map Revert (attempted rs))"
  by (induction rs arbitrary: lg) (auto split: option.splits)

lemma reverted_map_Revert [simp]: "reverted (map Revert rs) = rs"
  by (induction rs) auto

lemma action_results_map_Revert [simp]: "action_results (map Revert rs) = []"
  by (induction rs) auto

lemma store_writes_map_Revert [simp]: "store_writes (map Revert rs) = []"
  by (induction rs) auto

lemma catchBlock_eq:
  assumes "activePlugin st = Some nm"
  shows "catchBlock ctx e st fs =
     (if dryRun ctx then (Rejected e, fs\<lparr>lock_exists := False\<rparr>,
                          log st @ [ErrorLogged e, InfoThrew nm True])
      else (Rejected (case sweep_error (rev (revertFns st)) of None \<Rightarrow> e | Some e' \<Rightarrow> e'),
            fs\<lparr>lock_exists := False\<rparr>,
            log st @ [ErrorLogged e, InfoThrew nm False]
              @ map Revert (attempted (rev (revertFns st)))))"
  using assms by (simp add: catchBlock_def Let_def revertAll_eq split: option.splits)

lemma news_initial [simp]: "news (initial sc) st = log st"
  by (simp add: news_def initial_def)

lemma extends_initial:
  "extends (initial sc) st \<Longrightarrow>
   revertFns st = returned (action_results (log st)) \<and> reverted (log st) = []
   \<and> store_writes (log st) = [] \<and> InfoNoAction \<notin> set (log st)"
  by (simp add: extends_def initial_def)

lemma deploy_cases [consumes 1, case_names unstaged locked stalled caught persisted]:
  assumes "deploy ctx fs sc = (out, fs', lg)"
  obtains
    (unstaged) "\<not> dryRun ctx" "gitStatus ctx \<noteq> []"
      "out = Rejected (Error ''[saus] Cannot deploy with unstaged changes'')" "fs' = fs" "lg = []"
  | (locked) "\<not> dryRun ctx" "gitStatus ctx = []" "lock_exists fs"
      "out = Rejected (Error ''[saus] A deployment is already in progress'')" "fs' = fs" "lg = []"
  | (stalled) st where "passes ctx fs"
      "drain ctx (targets_yaml fs) sc (declarations sc) (initial sc) = (Stalled, st)"
      "extends (initial sc) st"
      "out = Pending" "fs' = fs\<lparr>lock_exists := True\<rparr>" "lg = log st"
  | (caught) e st nm where "passes ctx fs" "extends (initial sc) st"
      "all_ok (action_results (log st)) \<or> failed_with e (action_results (log st))"
      "activePlugin st = Some nm"
      "(out, fs', lg) = catchBlock ctx e st (fs\<lparr>lock_exists := True\<rparr>)"
  | (persisted) st0 st ks where "passes ctx fs"
      "drain ctx (targets_yaml fs) sc (declarations sc) (initial sc) = (Drained, st0)"
      "killTargets ctx ks st0 = (None, st)"
      "extends (initial sc) st" "all_ok (action_results (log st))"
      "(out, fs', lg) = persist ctx
          (if \<not> dryRun ctx
           then st\<lparr>log := log st @ [ActionCounts (length (addedTargets st))
                                      (length (updatedTargets st)) (length ks)]\<rparr>
           else st)
          (fs\<lparr>lock_exists := True, lock_exists := False\<rparr>)"
proof (cases "\<not> dryRun ctx \<and> gitStatus ctx \<noteq> []")
  case True
  with assms show ?thesis by (intro unstaged) (auto simp: deploy_def)
next
  case ng: False
  show ?thesis
  proof (cases "\<not> dryRun ctx \<and> lock_exists fs")
    case True
    with assms ng show ?thesis by (intro locked) (auto simp: deploy_def)
  next
    case nl: False
    from ng nl have p: "passes ctx fs" by (auto simp: passes_def)
    let ?fs1 = "fs\<lparr>lock_exists := True\<rparr>"
    obtain r st0 where dr: "drain ctx (targets_yaml fs) sc (declarations sc) (initial sc) = (r, st0)"
      by (cases "drain ctx (targets_yaml fs) sc (declarations sc) (initial sc)")
    note ds = drain_summary [OF dr]
    from ds have e0: "extends (initial sc) st0" by simp
    show ?thesis
    proof (cases r)
      case Stalled
      with assms ng nl dr have "out = Pending" "fs' = ?fs1" "lg = log st0"
        by (auto simp: deploy_def Let_def)
      with p dr Stalled e0 show ?thesis by (intro stalled) auto
    next
      case (Caught e)
      with ds obtain nm where nm: "activePlugin st0 = Some nm" by auto
      from assms ng nl dr Caught have "(out, fs', lg) = catchBlock ctx e st0 ?fs1"
        by (auto simp: deploy_def Let_def)
      with p e0 ds Caught nm show ?thesis by (intro caught [of st0 e nm]) auto
    next
      case Drained
      with ds obtain nm where nm: "activePlugin st0 = Some nm" by auto
      from ds Drained have ok0: "all_ok (action_results (log st0))"
        and pos: "0 < length (updatedTargets st0) + length (addedTargets st0)" by auto
      show ?thesis
      proof (cases "getKillableTargets (targets_yaml fs) (reusedTargets st0) ctx")
        case (Inl e)
        with assms ng nl dr Drained have "(out, fs', lg) = catchBlock ctx e st0 ?fs1"
          by (auto simp: deploy_def Let_def)
        with p e0 ok0 nm show ?thesis by (intro caught [of st0 e nm]) auto
      next
        case (Inr ks)
        obtain r1 st1 where kt: "killTargets ctx ks st0 = (r1, st1)"
          by (cases "killTargets ctx ks st0")
        note k = killTargets_summary [OF kt]
        have e1: "extends (initial sc) st1" using e0 k by (blast intro: extends_trans)
        have n1: "log st1 = log st0 @ news st0 st1" using k by (simp add: extends_def)
        from k nm obtain nm1 where nm1: "activePlugin st1 = Some nm1" by auto
        show ?thesis
        proof (cases r1)
          case (Some e)
          with assms ng nl dr Drained Inr kt pos
          have "(out, fs', lg) = catchBlock ctx e st1 ?fs1"
            by (auto simp: deploy_def Let_def)
          moreover have "failed_with e (action_results (log st1))"
            using k Some ok0 unfolding n1 by (auto intro: failed_with_append)
          ultimately show ?thesis using p e1 nm1 by (intro caught [of st1 e nm1]) auto
        next
          case None
          have ok1: "all_ok (action_results (log st1))"
            using k None ok0 unfolding n1 by auto
          from assms ng nl dr Drained Inr kt pos None
          have "(out, fs', lg) = persist ctx
             (if \<not> dryRun ctx
              then st1\<lparr>log := log st1 @ [ActionCounts (length (addedTargets st1))
                                      (length (updatedTargets st1)) (length ks)]\<rparr>
              else st1)
             (fs\<lparr>lock_exists := True, lock_exists := False\<rparr>)"
            by (auto simp: deploy_def Let_def)
          with p dr Drained kt None e1 ok1 show ?thesis
            by (intro persisted [of st0 ks st1]) auto
        qed
      qed
    qed
  qed
qed

section \<open>The example runs\<close>

lemmas run_defs = deploy_def initial_def addTarget_def pullTarget_def defineTargetId_def
  findSavedTarget_def applyChange_def addRevertFn_def catchBlock_def persist_def
  newTargetCache_def addCached_def Let_def get_def keys_def has_def strict_neq_def
  shop_def named_def hash_name_def shop_context_def shop_files_def shop_script_def

lemma shop_fields [simp]:
  "dryRun (shop_context d g u) = d" "gitStatus (shop_context d g u) = g"
  "lock_exists (shop_files l ts) = l" "store_written (shop_files l ts) = None"
  by (simp_all add: shop_context_def shop_files_def)

lemma run_abcd:
  "deploy (shop_context False [] undo) (shop_files False [])
          (shop_script undo [''a'', ''b'', ''c'', ''d'']) =
   (Rejected (case undo of None \<Rightarrow> Error ''spawn failed'' | Some e \<Rightarrow> e),
    shop_files False [], abcd_log undo)"
  by (cases undo) (simp_all add: run_defs abcd_log_def)

lemma abcd_results:
  "action_results (abcd_log undo) =
   map (\<lambda>r. Inr (Some r)) [RevertFn 1 None, RevertFn 2 undo, RevertFn 3 None]
   @ [Inl (Error ''spawn failed'')]"
  by (cases undo) (simp_all add: abcd_log_def)


lemma run_a:
  "deploy (shop_context False [] None) (shop_files False []) (shop_script None [''a'']) =
   (Resolved,
    (shop_files False [])\<lparr>store_written :=
        Some [(''shop'', ''shop.ts'', [Plain (named ''a'')])]\<rparr>,
    [Spawn ''shop'' (named ''a'') (Inr (Some (RevertFn 1 None))),
     ActionCounts 1 0 0,
     StoreWritten [(''shop'', ''shop.ts'', [Plain (named ''a'')])], Pushed])"
  by (simp add: run_defs)

lemma run_locked_dirty:
  "deploy (shop_context False ''M deploy.ts'' None) (shop_files True []) (shop_script None [''a'']) =
   (Rejected (Error ''[saus] Cannot deploy with unstaged changes''), shop_files True [], [])"
  by (simp add: deploy_def shop_context_def shop_files_def)

section \<open>Dry runs\<close>




section \<open>Rollback\<close>

lemma returned_oks [simp]: "returned (map (\<lambda>r. Inr (Some r)) rs) = rs"
  by (induction rs) auto

lemma not_all_ok_failed [simp]: "\<not> all_ok (rs @ [Inl e])"
  by simp

lemma rollback_general:
  assumes "\<not> dryRun ctx" and "deploy ctx fs sc = (out, fs', lg)" and "out \<noteq> Pending"
    and res: "action_results lg = map (\<lambda>r. Inr (Some r)) rs @ [Inl e]"
  shows "reverted lg = attempted (rev rs)
         \<and> out = Rejected (case sweep_error (rev rs) of None \<Rightarrow> e | Some e' \<Rightarrow> e')"
  using assms(2)
proof (cases rule: deploy_cases)
  case unstaged
  with res show ?thesis by simp
next
  case locked
  with res show ?thesis by simp
next
  case (stalled st)
  with assms(3) show ?thesis by simp
next
  case (caught e0 st nm)
  note i = extends_initial [OF caught(2)]
  from caught(5) caught(4) assms(1)
  have lg: "lg = log st @ [ErrorLogged e0, InfoThrew nm False]
              @ map Revert (attempted (rev (revertFns st)))"
    and out: "out = Rejected (case sweep_error (rev (revertFns st)) of None \<Rightarrow> e0 | Some e' \<Rightarrow> e')"
    by (simp_all add: catchBlock_eq)
  from lg res have r: "action_results (log st) = map (\<lambda>r. Inr (Some r)) rs @ [Inl e]" by simp
  with caught(3) have "failed_with e0 (map (\<lambda>r. Inr (Some r)) rs @ [Inl e])" by simp
  then have e0: "e0 = e" by (rule failed_with_unique)
  from i r have rf: "revertFns st = rs" by simp
  from lg i have "reverted lg = attempted (rev (revertFns st))" by simp
  with out e0 rf show ?thesis by (simp split: option.splits)
next
  case (persisted st0 st ks)
  from persisted(6) have "action_results lg = action_results (log st)"
    by (auto simp: persist_def Let_def split: if_splits)
  with persisted(5) res show ?thesis by simp
qed

lemma attempted_all: "\<forall>r \<in> set rs. raises r = None \<Longrightarrow> attempted rs = rs \<and> sweep_error rs = None"
  by (induction rs) auto

lemma attempted_stop:
  "\<forall>x \<in> set rs2. raises x = None \<Longrightarrow> raises r = Some e' \<Longrightarrow>
   attempted (rs2 @ r # rs1) = rs2 @ [r] \<and> sweep_error (rs2 @ r # rs1) = Some e'"
  by (induction rs2) auto

text \<open>
  C2, as amended. In a run that is not dry and whose promise settles, if the actions
  performed are \<open>N - 1\<close> actions that each returned a revert function, followed by
  an action that threw, and none of those revert functions throws, then exactly
  those \<open>N - 1\<close> revert functions are called, in the reverse order of their pushes,
  and the run is rejected with the error of the failed action. Which target or
  plugin an action belongs to plays no role, and the failed action adds no revert
  function.
\<close>

theorem rollback_in_reverse_order:
  assumes "\<not> dryRun ctx" and "deploy ctx fs sc = (out, fs', lg)" and "out \<noteq> Pending"
    and "action_results lg = map (\<lambda>r. Inr (Some r)) rs @ [Inl e]"
    and "\<forall>r \<in> set rs. raises r = None"
  shows "reverted lg = rev rs \<and> out = Rejected e"
  using rollback_general [OF assms(1-4)] attempted_all [of "rev rs"] assms(5) by simp

text \<open>
  C2 fails as stated: three actions hand back a revert function and the fourth
  fails; the revert function of the second throws, and the revert function of the
  first is not called.
\<close>

theorem rollback_not_complete_counterexample:
  "\<not> dryRun (shop_context False [] (Some (Error ''undo failed'')))
   \<and> action_results (snd (snd (deploy (shop_context False [] (Some (Error ''undo failed'')))
        (shop_files False []) (shop_script (Some (Error ''undo failed'')) [''a'', ''b'', ''c'', ''d'']))))
     = [Inr (Some (RevertFn 1 None)), Inr (Some (RevertFn 2 (Some (Error ''undo failed'')))),
        Inr (Some (RevertFn 3 None)), Inl (Error ''spawn failed'')]
   \<and> reverted (snd (snd (deploy (shop_context False [] (Some (Error ''undo failed'')))
        (shop_files False []) (shop_script (Some (Error ''undo failed'')) [''a'', ''b'', ''c'', ''d'']))))
     = [RevertFn 3 None, RevertFn 2 (Some (Error ''undo failed''))]"
  by (simp add: run_abcd abcd_log_def)

theorem rollback_in_reverse_order_witness:
  "\<not> dryRun (shop_context False [] None)
   \<and> deploy (shop_context False [] None) (shop_files False [])
        (shop_script None [''a'', ''b'', ''c'', ''d''])
     = (Rejected (Error ''spawn failed''), shop_files False [], abcd_log None)
   \<and> Rejected (Error ''spawn failed'') \<noteq> Pending
   \<and> action_results (abcd_log None)
     = map (\<lambda>r. Inr (Some r)) [RevertFn 1 None, RevertFn 2 None, RevertFn 3 None]
       @ [Inl (Error ''spawn failed'')]
   \<and> raises (RevertFn 1 None) = None \<and> raises (RevertFn 2 None) = None
   \<and> raises (RevertFn 3 None) = None
   \<and> reverted (abcd_log None) = rev [RevertFn 1 None, RevertFn 2 None, RevertFn 3 None]"
  using rollback_in_reverse_order [of "shop_context False [] None" "shop_files False []"
      "shop_script None [''a'', ''b'', ''c'', ''d'']" "Rejected (Error ''spawn failed'')"
      "shop_files False []" "abcd_log None"
      "[RevertFn 1 None, RevertFn 2 None, RevertFn 3 None]" "Error ''spawn failed''"]
    run_abcd [of None] abcd_results [of None]
  by simp

text \<open>
  C3, as amended. If a revert function throws during the sweep, the sweep ends with
  it: the revert functions pushed before it are not called, and the run is rejected
  with the error of the revert function, not with the error of the failed action.
\<close>

theorem rollback_stops_at_error:
  assumes "\<not> dryRun ctx" and "deploy ctx fs sc = (out, fs', lg)" and "out \<noteq> Pending"
    and "action_results lg = map (\<lambda>r. Inr (Some r)) (rs1 @ [r] @ rs2) @ [Inl e]"
    and "raises r = Some e'" and "\<forall>x \<in> set rs2. raises x = None"
  shows "reverted lg = rev rs2 @ [r] \<and> out = Rejected e'"
  using rollback_general [OF assms(1-4)] attempted_stop [of "rev rs2" r e' "rev rs1"] assms(5,6)
  by simp

text \<open>
  C3 fails as stated: after the revert function of b has thrown, the revert function
  of a is not attempted, and the run reports the rollback error.
\<close>

theorem rollback_error_is_fatal_counterexample:
  "fst (deploy (shop_context False [] (Some (Error ''undo failed''))) (shop_files False [])
          (shop_script (Some (Error ''undo failed'')) [''a'', ''b'', ''c'', ''d'']))
     = Rejected (Error ''undo failed'')
   \<and> Spawn ''shop'' (named ''d'') (Inl (Error ''spawn failed''))
       \<in> set (snd (snd (deploy (shop_context False [] (Some (Error ''undo failed'')))
            (shop_files False []) (shop_script (Some (Error ''undo failed'')) [''a'', ''b'', ''c'', ''d'']))))
   \<and> Spawn ''shop'' (named ''a'') (Inr (Some (RevertFn 1 None)))
       \<in> set (snd (snd (deploy (shop_context False [] (Some (Error ''undo failed'')))
            (shop_files False []) (shop_script (Some (Error ''undo failed'')) [''a'', ''b'', ''c'', ''d'']))))
   \<and> Revert (RevertFn 1 None)
       \<notin> set (snd (snd (deploy (shop_context False [] (Some (Error ''undo failed'')))
            (shop_files False []) (shop_script (Some (Error ''undo failed'')) [''a'', ''b'', ''c'', ''d'']))))"
  by (simp add: run_abcd abcd_log_def)

theorem rollback_stops_at_error_witness:
  "\<not> dryRun (shop_context False [] (Some (Error ''undo failed'')))
   \<and> deploy (shop_context False [] (Some (Error ''undo failed''))) (shop_files False [])
        (shop_script (Some (Error ''undo failed'')) [''a'', ''b'', ''c'', ''d''])
     = (Rejected (Error ''undo failed''), shop_files False [],
        abcd_log (Some (Error ''undo failed'')))
   \<and> Rejected (Error ''undo failed'') \<noteq> Pending
   \<and> action_results (abcd_log (Some (Error ''undo failed'')))
     = map (\<lambda>r. Inr (Some r))
         ([RevertFn 1 None] @ [RevertFn 2 (Some (Error ''undo failed''))] @ [RevertFn 3 None])
       @ [Inl (Error ''spawn failed'')]
   \<and> raises (RevertFn 2 (Some (Error ''undo failed''))) = Some (Error ''undo failed'')
   \<and> raises (RevertFn 3 None) = None
   \<and> reverted (abcd_log (Some (Error ''undo failed'')))
     = rev [RevertFn 3 None] @ [RevertFn 2 (Some (Error ''undo failed''))]"
  using rollback_stops_at_error [of "shop_context False [] (Some (Error ''undo failed''))"
      "shop_files False []" "shop_script (Some (Error ''undo failed'')) [''a'', ''b'', ''c'', ''d'']"
      "Rejected (Error ''undo failed'')" "shop_files False []"
      "abcd_log (Some (Error ''undo failed''))"
      "[RevertFn 1 None]" "RevertFn 2 (Some (Error ''undo failed''))" "[RevertFn 3 None]"
      "Error ''spawn failed''" "Error ''undo failed''"]
    run_abcd [of "Some (Error ''undo failed'')"] abcd_results [of "Some (Error ''undo failed'')"]
  by simp

section \<open>The lock\<close>

text \<open>
  C9, as amended. If the lock exists before a run that is not dry and whose working
  tree is clean, the run is rejected with the error that a deployment is already in
  progress, before any reconciliation, and the files stay as they are. A run that
  passes both checks creates the lock; the lock exists afterwards exactly when the
  promise of the run has not settled, so it is removed on every path on which the
  run ends, resolved or rejected.
\<close>

theorem lock_guard:
  "(\<not> dryRun ctx \<and> gitStatus ctx = [] \<and> lock_exists fs \<longrightarrow>
      deploy ctx fs sc = (Rejected (Error ''[saus] A deployment is already in progress''), fs, []))
   \<and> (passes ctx fs \<and> deploy ctx fs sc = (out, fs', lg) \<longrightarrow>
        lock_exists fs' = (out = Pending))"
proof (intro conjI impI)
  assume "\<not> dryRun ctx \<and> gitStatus ctx = [] \<and> lock_exists fs"
  then show "deploy ctx fs sc = (Rejected (Error ''[saus] A deployment is already in progress''), fs, [])"
    by (simp add: deploy_def)
next
  assume a: "passes ctx fs \<and> deploy ctx fs sc = (out, fs', lg)"
  then have "deploy ctx fs sc = (out, fs', lg)" by simp
  then show "lock_exists fs' = (out = Pending)"
  proof (cases rule: deploy_cases)
    case unstaged
    with a show ?thesis by (simp add: passes_def)
  next
    case locked
    with a show ?thesis by (simp add: passes_def)
  next
    case (stalled st)
    then show ?thesis by simp
  next
    case (caught e st nm)
    then show ?thesis by (auto simp: catchBlock_eq split: if_splits)
  next
    case (persisted st0 st ks)
    then show ?thesis by (auto simp: persist_def Let_def split: if_splits)
  qed
qed

text \<open>
  C9 fails as stated: with unstaged changes the first check rejects the run, and the
  error is not the one of the lock.
\<close>

theorem lock_guard_counterexample:
  "\<not> dryRun (shop_context False ''M deploy.ts'' None) \<and> lock_exists (shop_files True [])
   \<and> fst (deploy (shop_context False ''M deploy.ts'' None) (shop_files True []) (shop_script None [''a'']))
       \<noteq> Rejected (Error ''[saus] A deployment is already in progress'')"
  by (simp add: run_locked_dirty)

theorem lock_guard_witness:
  "(\<not> dryRun (shop_context False [] None) \<and> gitStatus (shop_context False [] None) = []
      \<and> lock_exists (shop_files True [])
      \<and> deploy (shop_context False [] None) (shop_files True []) (shop_script None [''a''])
        = (Rejected (Error ''[saus] A deployment is already in progress''), shop_files True [], []))
   \<and> (passes (shop_context False [] None) (shop_files False [])
      \<and> fst (deploy (shop_context False [] None) (shop_files False []) (shop_script None [''a'']))
        = Resolved
      \<and> \<not> lock_exists (fst (snd (deploy (shop_context False [] None) (shop_files False [])
                                    (shop_script None [''a''])))))"
  using lock_guard [of "shop_context False [] None" "shop_files True []" "shop_script None [''a'']"]
    lock_guard [of "shop_context False [] None" "shop_files False []" "shop_script None [''a'']"
      Resolved "(shop_files False [])\<lparr>store_written :=
        Some [(''shop'', ''shop.ts'', [Plain (named ''a'')])]\<rparr>"]
    run_a
  by (simp add: passes_def)

section \<open>A run without changes\<close>

text \<open>
  The message of line 191 is never logged: the kill phase is reached only when the
  last declaration has been spawned or updated.
\<close>

lemma no_action_message_unreachable:
  assumes "deploy ctx fs sc = (out, fs', lg)"
  shows "InfoNoAction \<notin> set lg"
  using assms
proof (cases rule: deploy_cases)
  case (stalled st)
  with extends_initial [OF stalled(3)] show ?thesis by simp
next
  case (caught e st nm)
  with extends_initial [OF caught(2)] show ?thesis
    by (auto simp: catchBlock_eq split: if_splits)
next
  case (persisted st0 st ks)
  with extends_initial [OF persisted(4)] show ?thesis
    by (auto simp: persist_def Let_def split: if_splits)
qed simp_all

text \<open>
  C7. The store holds the target a and the script declares a, unchanged. The call
  of \<^verbatim>\<open>addTarget\<close> returns from line 122, the cursor stays, \<^verbatim>\<open>deploying\<close> is never
  resolved: the run does not report that no action was required, its promise never
  settles and the lock stays.
\<close>

theorem unchanged_run_never_settles:
  "deploy (shop_context False [] None) (shop_files False [named ''a'']) (shop_script None [''a''])
   = (Pending, (shop_files False [named ''a''])\<lparr>lock_exists := True\<rparr>, [])"
  by (simp add: run_defs)

section \<open>What the diff engine computes\<close>

text \<open>
  From here on the equations of \<^verbatim>\<open>diffObjects\<close>, \<^verbatim>\<open>diff\<close> and \<^verbatim>\<open>equalArrays\<close> are
  unfolded only where a proof asks for them.
\<close>

declare diffObjects.simps [simp del] diff.simps [simp del] equalArrays.simps [simp del]

lemmas diff_defs = diffObjects.simps diff.simps get_def keys_def has_def strict_neq_def

text \<open>
  The branch of \<^verbatim>\<open>diff\<close> for two arrays (lines 310-313) is never taken: two arrays
  pass the test of line 306. What is left of \<^verbatim>\<open>diff\<close> is this.
\<close>

lemma isArray_isPlainObject: "isArray v \<Longrightarrow> isPlainObject v"
  by (cases v) auto

lemma diff_eq:
  "diff key oldValue val (differs, changed) =
     (differs \<or> field_differs oldValue val,
      case field_entry oldValue val of None \<Rightarrow> changed | Some e \<Rightarrow> AList.update key e changed)"
  by (auto simp: diff.simps field_differs_def field_entry_def split: prod.splits
           dest: isArray_isPlainObject)

lemma fold_diff:
  "fold (\<lambda>key. diff key (f key) (g key)) ks (d, c) =
     (d \<or> (\<exists>k \<in> set ks. field_differs (f k) (g k)),
      fold (\<lambda>k c. case field_entry (f k) (g k) of None \<Rightarrow> c | Some e \<Rightarrow> AList.update k e c) ks c)"
  by (induction ks arbitrary: d c) (auto simp: diff_eq)

lemma fold_diff_if:
  "fold (\<lambda>key s. if P key then diff key (f key) (g key) s else s) ks (d, c) =
     (d \<or> (\<exists>k \<in> set ks. P k \<and> field_differs (f k) (g k)),
      fold (\<lambda>k c. if P k then (case field_entry (f k) (g k) of None \<Rightarrow> c
                                | Some e \<Rightarrow> AList.update k e c) else c) ks c)"
  by (induction ks arbitrary: d c) (auto simp: diff_eq)





lemma diffObjects_differs:
  "fst (diffObjects old new c) =
     (\<exists>k \<in> set (keys new) \<union> set (keys old). field_differs (get old k) (get new k))"
  by (auto simp: diffObjects.simps Let_def fold_diff fold_diff_if has_def)



lemma size_get: "k \<in> set (keys v) \<Longrightarrow> size (get v k) < size v"
proof -
  assume "k \<in> set (keys v)"
  then have "map_of (entries v) k \<noteq> None" by (simp add: keys_def map_of_eq_None_iff)
  then obtain x where x: "map_of (entries v) k = Some x" by blast
  then have m: "(k, x) \<in> set (entries v)" by (rule map_of_SomeD)
  have "size x < size v"
  proof (cases v)
    case (Arr xs)
    with m have "x \<in> set xs" by (auto dest: set_zip_rightD)
    then have "size x \<le> size_list size xs" by (simp add: size_list_estimation')
    with Arr show ?thesis by simp
  next
    case (Obj kvs)
    with m have "(k, x) \<in> set kvs" by simp
    then have "size_prod (\<lambda>_. 0) size (k, x) \<le> size_list (size_prod (\<lambda>_. 0) size) kvs"
      by (rule size_list_estimation') simp
    with Obj show ?thesis by simp
  qed (use m in auto)
  with x show ?thesis by (simp add: get_def)
qed



lemma diffObjects_same: "\<not> fst (diffObjects v v c)"
proof (induction v arbitrary: c rule: measure_induct_rule [of size])
  case (less v)
  show ?case
  proof
    assume "fst (diffObjects v v c)"
    then obtain k where k: "k \<in> set (keys v)" "field_differs (get v k) (get v k)"
      by (auto simp: diffObjects_differs)
    from k(1) have "size (get v k) < size v" by (rule size_get)
    then have "\<not> fst (diffObjects (get v k) (get v k) [])" by (rule less.IH)
    with k(2) show False by (auto simp: field_differs_def strict_neq_def split: if_splits)
  qed
qed








lemma plain_data_defined: "plain_data v \<Longrightarrow> v \<noteq> Undefined"
  by auto



















section \<open>The snapshot\<close>

lemma declared_under_simps [simp]:
  "declared_under nm [] = []"
  "declared_under nm ((hook, target) # ds) =
     (if name (plugin hook) = nm then (hook, target) # declared_under nm ds
      else declared_under nm ds)"
  by (simp_all add: declared_under_def)

lemma fold_addCached:
  assumes "distinct (map fst acc)"
  shows "distinct (map fst (fold addCached ts acc))
    \<and> map_of (fold addCached ts acc) nm =
       (case map_of acc nm of
          Some (f, cached) \<Rightarrow> Some (f, cached @ map snd (declared_under nm ts))
        | None \<Rightarrow>
            (case declared_under nm ts of
               [] \<Rightarrow> None
             | (hook, target) # rest \<Rightarrow> Some (hook_file hook, map snd (declared_under nm ts))))"
  using assms
proof (induction ts arbitrary: acc)
  case Nil
  then show ?case by (auto split: option.splits)
next
  case (Cons t ts)
  obtain hook target where t: "t = (hook, target)" by (cases t)
  let ?n = "name (plugin hook)"
  show ?case
  proof (cases "map_of acc ?n")
    case None
    then have notin: "?n \<notin> fst ` set acc" by (simp add: map_of_eq_None_iff)
    let ?acc = "acc @ [(?n, hook_file hook, [target])]"
    have a: "addCached t acc = ?acc" using None t by (simp add: addCached_def)
    have d: "distinct (map fst ?acc)" using Cons.prems notin by simp
    have m: "map_of ?acc nm = (if nm = ?n then Some (hook_file hook, [target]) else map_of acc nm)"
      using None by (auto simp: map_add_def split: option.splits)
    from Cons.IH [OF d] a m t None show ?thesis
      by (auto split: option.splits list.splits)
  next
    case (Some fc)
    obtain f cached where fc: "fc = (f, cached)" by (cases fc)
    let ?acc = "AList.update ?n (f, cached @ [target]) acc"
    have a: "addCached t acc = ?acc" using Some fc t by (simp add: addCached_def)
    have d: "distinct (map fst ?acc)" using Cons.prems by (simp add: distinct_update)
    have m: "map_of ?acc nm = (if nm = ?n then Some (f, cached @ [target]) else map_of acc nm)"
      by (simp add: update_conv')
    from Cons.IH [OF d] a m t Some fc show ?thesis
      by (auto split: option.splits list.splits)
  qed
qed

lemma newTargetCache_groups:
  "distinct (map fst (newTargetCache ts))
   \<and> map_of (newTargetCache ts) nm =
       (case declared_under nm ts of
          [] \<Rightarrow> None
        | (hook, target) # rest \<Rightarrow> Some (hook_file hook, map snd (declared_under nm ts)))"
  using fold_addCached [of "[]" ts nm] by (simp add: newTargetCache_def)

lemma addTarget_targets:
  assumes "addTarget ctx tc pos hook t st = (Advanced, st')"
    and "pos < length (targets st)" and "targets st ! pos = (hook, t)"
  shows "targets st' = (targets st)[pos := persisted (hook, t)]"
proof (cases t)
  case (Plain v)
  with assms show ?thesis
    by (auto simp: addTarget_def Let_def persisted_def
           split: sum.splits option.splits prod.splits if_splits
           dest!: findSavedTarget_frame applyChange_frame)
next
  case (Promised r)
  with assms(2,3) have "(targets st)[pos := persisted (hook, t)] = targets st"
    by (simp add: persisted_def list_update_same_conv)
  with assms(1) Promised show ?thesis
    by (auto simp: addTarget_def Let_def
           split: sum.splits option.splits prod.splits if_splits
           dest!: findSavedTarget_frame applyChange_frame)
qed

lemma drain_targets:
  assumes "drain ctx tc sc ds st = (Drained, st')"
    and "targets st = pre @ ds" and "targetIndex st = length pre"
  shows "targets st' = pre @ map persisted ds"
  using assms
proof (induction ds arbitrary: st pre)
  case Nil
  then show ?case by simp
next
  case (Cons d ds)
  obtain hook t where d: "d = (hook, t)" by (cases d)
  obtain r1 st1 where a: "addTarget ctx tc (targetIndex st) hook t st = (r1, st1)"
    by (cases "addTarget ctx tc (targetIndex st) hook t st")
  with Cons.prems(1) d have r1: "r1 = Advanced"
    by (cases r1) (auto split: if_splits)
  note s = addTarget_summary [OF a, unfolded summary_def]
  have t1: "targets st1 = pre @ persisted d # ds"
    using addTarget_targets [OF a [unfolded r1]] Cons.prems(2,3) d by simp
  let ?st2 = "st1\<lparr>targetIndex := targetIndex st1 + 1\<rparr>"
  show ?case
  proof (cases "ds = []")
    case True
    with Cons.prems(1) d a r1 have "st' = ?st2" by (auto simp: Let_def split: if_splits)
    with t1 True show ?thesis by simp
  next
    case False
    with Cons.prems(1) d a r1 have dr: "drain ctx tc sc ds ?st2 = (Drained, st')"
      by (simp add: Let_def)
    have "targets st' = (pre @ [persisted d]) @ map persisted ds"
      by (rule Cons.IH [OF dr]) (use t1 s Cons.prems(3) in simp_all)
    then show ?thesis by simp
  qed
qed

lemma store_writes_empty: "store_writes lg = [] \<Longrightarrow> StoreWritten c \<notin> set lg"
  by (induction lg rule: store_writes.induct) auto

lemma run_both:
  "deploy both_context both_files both_script =
   (Resolved, both_files\<lparr>store_written := Some both_snapshot\<rparr>,
    [Spawn ''shop'' (named ''a'') (Inr (Some (RevertFn 1 None))),
     Spawn ''depot'' (Obj [(Name ''name'', Str ''x''), (Name ''id'', Str ''i-1'')]) (Inr None),
     WarnNoRollback ''depot'' ''spawn'',
     Spawn ''depot'' (Obj [(Name ''name'', Str ''y''), (Name ''id'', Str ''i-1'')]) (Inr None),
     Spawn ''shop'' (named ''b'') (Inr (Some (RevertFn 2 None))),
     ActionCounts 4 0 0, StoreWritten both_snapshot, Pushed])"
  by (simp add: run_defs diff_defs shop_hook_def depot_hook_def depot_def both_context_def
        both_files_def both_script_def both_snapshot_def)

lemma written_snapshot:
  assumes "deploy ctx fs sc = (out, fs', lg)" and "StoreWritten snap \<in> set lg"
  shows "snap = newTargetCache (map persisted (declarations sc))"
  using assms(1)
proof (cases rule: deploy_cases)
  case unstaged
  with assms(2) show ?thesis by simp
next
  case locked
  with assms(2) show ?thesis by simp
next
  case (stalled st)
  with extends_initial [OF stalled(3)] assms(2) show ?thesis
    by (auto dest: store_writes_empty)
next
  case (caught e st nm)
  then have "store_writes lg = []"
    using extends_initial [OF caught(2)] by (auto simp: catchBlock_eq split: if_splits)
  with assms(2) show ?thesis by (auto dest: store_writes_empty)
next
  case (persisted st0 st ks)
  have "targets st0 = [] @ map persisted (declarations sc)"
    by (rule drain_targets [OF persisted(2)]) (simp_all add: initial_def)
  moreover have "targets st = targets st0"
    using killTargets_summary [OF persisted(3)] by simp
  ultimately have t: "targets st = map persisted (declarations sc)" by simp
  from extends_initial [OF persisted(4)] have "StoreWritten snap \<notin> set (log st)"
    by (auto dest: store_writes_empty)
  with persisted(6) assms(2) t show ?thesis
    by (auto simp: persist_def Let_def split: if_splits)
qed

text \<open>
  C10. The snapshot that a run writes to the Target Store is built from the declarations in
  declaration order, grouped by plugin name: each plugin that has a declaration gets one
  entry, with the file of the hook of its first declaration and the list of what was declared
  through it, in declaration order; a plugin without declaration gets none. A target declared
  as a record is persisted with its pulled fields merged in; a target declared as a promise
  is persisted as that promise, not as the record it resolves to.
\<close>

theorem snapshot_of_declarations:
  assumes "deploy ctx fs sc = (out, fs', lg)" and "StoreWritten snap \<in> set lg"
  shows "snap = newTargetCache (map persisted (declarations sc))
    \<and> distinct (map fst snap)
    \<and> (\<forall>nm. map_of snap nm =
          (case declared_under nm (map persisted (declarations sc)) of
             [] \<Rightarrow> None
           | (hook, target) # rest \<Rightarrow>
               Some (hook_file hook,
                     map snd (declared_under nm (map persisted (declarations sc))))))"
  using written_snapshot [OF assms] newTargetCache_groups [of "map persisted (declarations sc)"]
  by simp

theorem snapshot_of_declarations_witness:
  "fst (deploy both_context both_files both_script) = Resolved
   \<and> StoreWritten both_snapshot \<in> set (snd (snd (deploy both_context both_files both_script)))
   \<and> both_snapshot = newTargetCache (map persisted (declarations both_script))
   \<and> map persisted (declarations both_script) =
       [(shop_hook, Plain (named ''a'')),
        (depot_hook, Promised (Inr (named ''x''))),
        (depot_hook, Plain (Obj [(Name ''name'', Str ''y''), (Name ''id'', Str ''i-1'')])),
        (shop_hook, Plain (named ''b''))]
   \<and> map_of both_snapshot ''depot'' =
       Some (''depot.ts'',
             [Promised (Inr (named ''x'')),
              Plain (Obj [(Name ''name'', Str ''y''), (Name ''id'', Str ''i-1'')])])"
  using snapshot_of_declarations [OF run_both, of both_snapshot] run_both
  by (simp add: both_script_def persisted_def pullTarget_def shop_hook_def depot_hook_def
        shop_def depot_def named_def both_snapshot_def newTargetCache_def addCached_def)

section \<open>A second run\<close>

lemma stored_as_lookup:
  assumes "stored_as snap store" and "map_of snap nm = Some (f, ds)"
  shows "\<exists>vs. map_of store nm = Some (f, vs) \<and> list_all2 reads_back ds vs"
  using assms unfolding stored_as_def
  by (induction rule: list_all2_induct) (auto split: if_splits)

lemma addTarget_Advanced_Plain:
  assumes "addTarget ctx tc pos hook (Plain v) st = (Advanced, st')"
  obtains v2 vals where "pullTarget (plugin hook) v = Inr v2"
    and "identify (plugin hook) v2 = Inr vals" and "isPlainObject v2"
  using assms
  by (auto simp: addTarget_def Let_def defineTargetId_def
           split: sum.splits if_splits prod.splits option.splits)

lemma findSavedTarget_head:
  assumes "savedTargetsByPlugin st = []" and "map_of tc (name p) = Some (f, v2 # vs)"
    and "identify p v2 = Inr vals" and "isPlainObject v2"
    and "findSavedTarget ctx tc (toObjectHash ctx vals) p st = (r, st')"
  shows "(\<exists>e. r = Inl e) \<or> r = Inr (Some (0, v2))"
  using assms
  by (auto simp: findSavedTarget_def defineTargetId_def upt_conv_Cons
           simp del: upt_Suc split: sum.splits)

lemma addTarget_again:
  assumes "savedTargetsByPlugin st = []" and "map_of tc (name (plugin hook)) = Some (f, v2 # vs)"
    and "pullTarget (plugin hook) v = Inr v2"
    and "identify (plugin hook) v2 = Inr vals" and "isPlainObject v2"
    and "addTarget ctx tc pos hook (Plain v) st = (res, st')"
  shows "res \<noteq> Advanced \<and> log st' = log st \<and> revertFns st' = revertFns st"
proof -
  let ?st1 = "st\<lparr>activePlugin := Some (name (plugin hook)),
                 targets := (targets st)[pos := (hook, Plain v2)]\<rparr>"
  obtain r st2 where f: "findSavedTarget ctx tc (toObjectHash ctx vals) (plugin hook) ?st1 = (r, st2)"
    by (cases "findSavedTarget ctx tc (toObjectHash ctx vals) (plugin hook) ?st1")
  from findSavedTarget_frame [OF f]
  have fr: "log st2 = log st" "revertFns st2 = revertFns st" by simp_all
  have "savedTargetsByPlugin ?st1 = []" using assms(1) by simp
  from findSavedTarget_head [OF this assms(2) assms(4) assms(5) f]
  consider e where "r = Inl e" | "r = Inr (Some (0, v2))" by blast
  then show ?thesis
  proof cases
    case 1
    with assms(3-6) f fr show ?thesis
      by (auto simp: addTarget_def Let_def defineTargetId_def)
  next
    case 2
    obtain ch where d: "diffObjects v2 v2 [] = (False, ch)"
      using diffObjects_same [of v2 "[]"] by (cases "diffObjects v2 v2 []") auto
    with 2 assms(3-6) f fr show ?thesis
      by (auto simp: addTarget_def Let_def defineTargetId_def)
  qed
qed

lemma run_ab:
  "deploy (shop_context False [] None) (shop_files False []) (shop_script None [''a'', ''b'']) =
   (Resolved,
    (shop_files False [])\<lparr>store_written :=
        Some [(''shop'', ''shop.ts'', [Plain (named ''a''), Plain (named ''b'')])]\<rparr>,
    [Spawn ''shop'' (named ''a'') (Inr (Some (RevertFn 1 None))),
     Spawn ''shop'' (named ''b'') (Inr (Some (RevertFn 2 None))),
     ActionCounts 2 0 0,
     StoreWritten [(''shop'', ''shop.ts'', [Plain (named ''a''), Plain (named ''b'')])], Pushed])"
  by (simp add: run_defs diff_defs)

lemma rerun_ab:
  "deploy (shop_context False [] None) (shop_files False [named ''a'', named ''b''])
     (shop_script None [''a'', ''b'']) =
   (Pending, (shop_files False [named ''a'', named ''b''])\<lparr>lock_exists := True\<rparr>, [])"
  by (simp add: run_defs diff_defs)

text \<open>
  A first run ends successfully and writes its snapshot; a second run is started with the
  same declarations against the store that this snapshot reads back as. If the first
  declared target was declared as a record, the second run calls no \<^verbatim>\<open>spawn\<close>, no
  \<^verbatim>\<open>update\<close> and no \<^verbatim>\<open>kill\<close>: the call of \<^verbatim>\<open>addTarget\<close> for the first declaration finds
  the saved target at position 0 with the same identity and no difference, or one of the
  saved targets cannot be identified, and in both cases the call ends before any action and
  before the cursor moves.
\<close>

lemma rerun_after_record:
  assumes "deploy ctx fs sc = (Resolved, fs', lg)" and "StoreWritten snap \<in> set lg"
    and "stored_as snap (targets_yaml fs2)"
    and "declarations sc2 = declarations sc" and "toObjectHash ctx2 = toObjectHash ctx"
    and "declarations sc = (hook, Plain v) # rest"
    and "deploy ctx2 fs2 sc2 = (out2, fs2', lg2)"
  shows "action_results lg2 = []"
proof -
  let ?p = "plugin hook"
  from assms(1) obtain st0 where
    dr: "drain ctx (targets_yaml fs) sc (declarations sc) (initial sc) = (Drained, st0)"
  proof (cases rule: deploy_cases)
    case (caught e st nm)
    then show ?thesis
      by (auto simp: catchBlock_eq split: if_splits)
  next
    case (persisted st0 st ks)
    then show ?thesis using that by blast
  qed (use assms(2) in auto)
  then obtain st1 where "addTarget ctx (targets_yaml fs) 0 hook (Plain v) (initial sc) = (Advanced, st1)"
    using assms(6)
    by (auto simp: initial_def Let_def split: prod.splits settled.splits if_splits)
  then obtain v2 vals where pl: "pullTarget ?p v = Inr v2"
    and idn: "identify ?p v2 = Inr vals" and po: "isPlainObject v2"
    by (rule addTarget_Advanced_Plain)
  from written_snapshot [OF assms(1,2)] assms(6) pl
  have "snap = newTargetCache ((hook, Plain v2) # map persisted rest)"
    by (simp add: persisted_def)
  with newTargetCache_groups [of "(hook, Plain v2) # map persisted rest" "name ?p"]
  have "map_of snap (name ?p) =
          Some (hook_file hook, Plain v2 # map snd (declared_under (name ?p) (map persisted rest)))"
    by simp
  from stored_as_lookup [OF assms(3) this]
  obtain vs where look: "map_of (targets_yaml fs2) (name ?p) = Some (hook_file hook, v2 # vs)"
    by (auto simp: list_all2_Cons1)
  show ?thesis
  proof (cases "passes ctx2 fs2")
    case False
    with assms(7) show ?thesis by (auto simp: deploy_def passes_def split: if_splits)
  next
    case True
    obtain res st' where a:
      "addTarget ctx2 (targets_yaml fs2) 0 hook (Plain v) (initial sc2) = (res, st')"
      by (cases "addTarget ctx2 (targets_yaml fs2) 0 hook (Plain v) (initial sc2)")
    have "savedTargetsByPlugin (initial sc2) = []" by (simp add: initial_def)
    from addTarget_again [OF this look pl idn po a]
    have r: "res \<noteq> Advanced" "log st' = []" "revertFns st' = []" by (simp_all add: initial_def)
    from addTarget_active [OF a] have act: "activePlugin st' = Some (name ?p)" .
    have ti: "targetIndex (initial sc2) = 0" by (simp add: initial_def)
    from True assms(7) assms(4) assms(6) a r act ti show ?thesis
      by (cases res) (auto simp: deploy_def passes_def Let_def catchBlock_eq split: if_splits)
  qed
qed

lemma rerun_after_record_example:
  "deploy (shop_context False [] None) (shop_files False []) (shop_script None [''a'', ''b'']) =
     (Resolved,
      (shop_files False [])\<lparr>store_written :=
          Some [(''shop'', ''shop.ts'', [Plain (named ''a''), Plain (named ''b'')])]\<rparr>,
      [Spawn ''shop'' (named ''a'') (Inr (Some (RevertFn 1 None))),
       Spawn ''shop'' (named ''b'') (Inr (Some (RevertFn 2 None))),
       ActionCounts 2 0 0,
       StoreWritten [(''shop'', ''shop.ts'', [Plain (named ''a''), Plain (named ''b'')])], Pushed])
   \<and> StoreWritten [(''shop'', ''shop.ts'', [Plain (named ''a''), Plain (named ''b'')])]
       \<in> set (snd (snd (deploy (shop_context False [] None) (shop_files False [])
                              (shop_script None [''a'', ''b'']))))
   \<and> stored_as [(''shop'', ''shop.ts'', [Plain (named ''a''), Plain (named ''b'')])]
        (targets_yaml (shop_files False [named ''a'', named ''b'']))
   \<and> declarations (shop_script None [''a'', ''b'']) =
        (shop_hook, Plain (named ''a'')) # [(shop_hook, Plain (named ''b''))]
   \<and> action_results (snd (snd (deploy (shop_context False [] None)
                                  (shop_files False [named ''a'', named ''b''])
                                  (shop_script None [''a'', ''b''])))) = []"
  using rerun_after_record [OF run_ab _ _ refl refl _ rerun_ab,
      of "[(''shop'', ''shop.ts'', [Plain (named ''a''), Plain (named ''b'')])]"
         shop_hook "named ''a''" "[(shop_hook, Plain (named ''b''))]"]
    run_ab rerun_ab
  by (simp add: stored_as_def shop_script_def shop_hook_def) (simp add: shop_files_def)

lemma run_promise:
  "deploy (shop_context False [] None) (shop_files False []) promise_script =
   (Resolved,
    (shop_files False [])\<lparr>store_written :=
        Some [(''shop'', ''shop.ts'', [Promised (Inr (named ''a''))])]\<rparr>,
    [Spawn ''shop'' (named ''a'') (Inr (Some (RevertFn 1 None))),
     ActionCounts 1 0 0,
     StoreWritten [(''shop'', ''shop.ts'', [Promised (Inr (named ''a''))])], Pushed])"
  by (simp add: run_defs diff_defs promise_script_def shop_hook_def)

lemma rerun_promise:
  "deploy (shop_context False [] None) (shop_files False [Obj []]) promise_script =
   (Resolved,
    (shop_files False [Obj []])\<lparr>store_written :=
        Some [(''shop'', ''shop.ts'', [Promised (Inr (named ''a''))])]\<rparr>,
    [Spawn ''shop'' (named ''a'') (Inr (Some (RevertFn 1 None))),
     Kill ''shop'' (Obj []) (Inr (Some (RevertFn 4 None))),
     ActionCounts 1 0 1,
     StoreWritten [(''shop'', ''shop.ts'', [Promised (Inr (named ''a''))])], Pushed])"
  by (simp add: run_defs diff_defs promise_script_def shop_hook_def)

text \<open>
  C8. The target a is declared as a promise against an empty store entry. The first run
  spawns it and ends successfully; its snapshot holds the promise, which has no own
  enumerable property. The second run has the same declaration and the store that this
  snapshot reads back as, the promise as a record without fields. No saved target has the
  identity of a: the second run spawns a again and kills the saved entry.
\<close>

theorem second_run_spawns_again:
  "deploy (shop_context False [] None) (shop_files False []) promise_script =
     (Resolved,
      (shop_files False [])\<lparr>store_written :=
          Some [(''shop'', ''shop.ts'', [Promised (Inr (named ''a''))])]\<rparr>,
      [Spawn ''shop'' (named ''a'') (Inr (Some (RevertFn 1 None))),
       ActionCounts 1 0 0,
       StoreWritten [(''shop'', ''shop.ts'', [Promised (Inr (named ''a''))])], Pushed])
   \<and> StoreWritten [(''shop'', ''shop.ts'', [Promised (Inr (named ''a''))])]
       \<in> set (snd (snd (deploy (shop_context False [] None) (shop_files False []) promise_script)))
   \<and> stored_as [(''shop'', ''shop.ts'', [Promised (Inr (named ''a''))])]
        (targets_yaml (shop_files False [Obj []]))
   \<and> action_results (snd (snd (deploy (shop_context False [] None) (shop_files False [Obj []])
                                  promise_script))) =
       [Inr (Some (RevertFn 1 None)), Inr (Some (RevertFn 4 None))]"
  by (simp add: run_promise rerun_promise stored_as_def) (simp add: shop_files_def)

end
